theory Spec2Isabelle
  imports Complex_Main "HOL-Library.Word"
begin

unbundle bit_operations_syntax

section \<open>Bytes\<close>

type_synonym byte = "8 word"
type_synonym bytes = "byte list"

section \<open>The protobuf wire format used by the generated codecs\<close>

text \<open>
  \<^verbatim>\<open>packages/peer-store/src/pb/peer.ts\<close> is generated code that drives the writer and
  the reader of the protons runtime, an external dependency. The runtime is modelled
  here by what its writer and its reader do with the protobuf wire format: a varint is
  little-endian base 128 with a continuation bit, a length-delimited field is a varint
  length followed by that many bytes. \<open>None\<close> stands for the reader throwing (index
  out of range, invalid varint, invalid wire type).
\<close>

function writeVarint :: "nat \<Rightarrow> bytes" where
  "writeVarint n =
     (if n < 128 then [of_nat n]
      else of_nat (n mod 128 + 128) # writeVarint (n div 128))"
  by pat_completeness auto
termination
  by (relation "measure (\<lambda>n. n)") auto

declare writeVarint.simps [simp del]

text \<open>
  \<open>w.uint32(v)\<close>, \<open>w.uint64(v)\<close>, \<open>w.bool(v)\<close>, \<open>w.bytes(v)\<close>. A \<open>uint32\<close> is a
  JavaScript number taken modulo \<open>2 ^ 32\<close> (\<^verbatim>\<open>value >>> 0\<close>). The argument of \<open>w.uint64\<close> is
  a \<open>bigint\<close>, any integer: the writer makes of it the two 32-bit halves that it writes
  as one varint. That conversion, \<^verbatim>\<open>LongBits.fromBigInt\<close> of the runtime, is a parameter
  of the model (\<open>fromBigInt\<close>), so that what it keeps of an integer outside the range of
  a \<open>uint64\<close> is for the library to say.
\<close>

definition w_uint32 :: "32 word \<Rightarrow> bytes" where
  "w_uint32 v = writeVarint (unat v)"

definition w_uint64 :: "(int \<Rightarrow> 64 word) \<Rightarrow> int \<Rightarrow> bytes" where
  "w_uint64 fromBigInt v = writeVarint (unat (fromBigInt v))"

definition w_bool :: "bool \<Rightarrow> bytes" where
  "w_bool b = [if b then 1 else 0]"

definition w_bytes :: "bytes \<Rightarrow> bytes" where
  "w_bytes v = w_uint32 (of_nat (length v)) @ v"

text \<open>
  Reading a varint of at most \<open>k\<close> bytes, each checked against the end of the buffer:
  running off the end, or a byte that says to go on at the last place allowed, throws.
  The second component of a result is the rest of the buffer (the reader's new
  position).
\<close>

fun readVarint :: "nat \<Rightarrow> bytes \<Rightarrow> (nat \<times> bytes) option" where
  "readVarint 0 bs = None"
| "readVarint (Suc k) [] = None"
| "readVarint (Suc k) (b # bs) =
     (if b < 128 then Some (unat b, bs)
      else (case readVarint k bs of
              None \<Rightarrow> None
            | Some (v, rest) \<Rightarrow> Some (unat b - 128 + 128 * v, rest)))"

text \<open>
  \<open>reader.uint32()\<close>: up to five bytes are read, seven bits each and four of the fifth,
  up to the first byte below 128. A byte read past the end of the buffer is
  \<^verbatim>\<open>undefined\<close>, which counts as a byte to go on from, and the call then ends in the
  throw below. After five bytes that all say to go on, five more are skipped without a
  look, or the reader throws if the buffer has fewer. The bit fields do not overlap, so
  that the \<^verbatim>\<open>|\<close> of the code is written as a sum.
\<close>

fun r_uint32_from :: "nat \<Rightarrow> nat \<Rightarrow> bytes \<Rightarrow> (nat \<times> bytes) option" where
  "r_uint32_from i v [] = None"
| "r_uint32_from i v (b # bs) =
     (if i < 4 then
        (let v' = v + (unat b mod 128) * 2 ^ (7 * i)
         in if b < 128 then Some (v', bs) else r_uint32_from (Suc i) v' bs)
      else
        (let v' = v + (unat b mod 16) * 2 ^ 28
         in if b < 128 then Some (v', bs)
            else if length bs < 5 then None
            else Some (v', drop 5 bs)))"

definition r_uint32 :: "bytes \<Rightarrow> (32 word \<times> bytes) option" where
  "r_uint32 bs =
     (case r_uint32_from 0 0 bs of None \<Rightarrow> None | Some (v, rest) \<Rightarrow> Some (of_nat v, rest))"

text \<open>
  \<open>reader.uint64()\<close> is \<open>readLongVarint().toBigInt(true)\<close>. With more than four bytes left
  in the buffer, up to ten bytes are read, and ten bytes that all say to go on are an
  invalid varint; the value is kept in two 32-bit halves, that is modulo \<open>2 ^ 64\<close>.
  With four bytes or fewer left, three bytes are read with a check of the end of the
  buffer, and then a fourth without that check and without a look at its highest bit.
\<close>

fun readLongVarint_short :: "nat \<Rightarrow> nat \<Rightarrow> bytes \<Rightarrow> (nat \<times> bytes) option" where
  "readLongVarint_short i v [] = (if i < 3 then None else Some (v, []))"
| "readLongVarint_short i v (b # bs) =
     (if i < 3 then
        (let v' = v + (unat b mod 128) * 2 ^ (7 * i)
         in if b < 128 then Some (v', bs) else readLongVarint_short (Suc i) v' bs)
      else Some (v + (unat b mod 128) * 2 ^ (7 * i), bs))"

definition readLongVarint :: "bytes \<Rightarrow> (nat \<times> bytes) option" where
  "readLongVarint bs =
     (if length bs > 4 then
        (case readVarint 10 bs of None \<Rightarrow> None | Some (v, rest) \<Rightarrow> Some (v mod 2 ^ 64, rest))
      else readLongVarint_short 0 0 bs)"

definition r_uint64 :: "bytes \<Rightarrow> (int \<times> bytes) option" where
  "r_uint64 bs =
     (case readLongVarint bs of None \<Rightarrow> None | Some (v, rest) \<Rightarrow> Some (int v, rest))"

definition r_bool :: "bytes \<Rightarrow> (bool \<times> bytes) option" where
  "r_bool bs =
     (case r_uint32 bs of None \<Rightarrow> None | Some (v, rest) \<Rightarrow> Some (v \<noteq> 0, rest))"

definition r_bytes :: "bytes \<Rightarrow> (bytes \<times> bytes) option" where
  "r_bytes bs =
     (case r_uint32 bs of
        None \<Rightarrow> None
      | Some (len, rest) \<Rightarrow>
          if unat len > length rest then None
          else Some (take (unat len) rest, drop (unat len) rest))"

text \<open>\<open>reader.skip(n)\<close> and \<open>reader.skip()\<close> (skip one varint).\<close>

definition r_skip :: "nat \<Rightarrow> bytes \<Rightarrow> bytes option" where
  "r_skip n bs = (if n > length bs then None else Some (drop n bs))"

fun r_skip_varint :: "bytes \<Rightarrow> bytes option" where
  "r_skip_varint [] = None"
| "r_skip_varint (b # bs) = (if b AND 128 \<noteq> 0 then r_skip_varint bs else Some bs)"

text \<open>
  \<open>reader.skipType(wireType)\<close>. Wire type 3 opens a group, skipped up to its end
  marker (wire type 4) with nested groups skipped recursively; the first argument
  bounds that nesting and \<open>r_skipType\<close> starts it high enough for the buffer at hand.
\<close>

fun skipType_upto :: "nat \<Rightarrow> 32 word \<Rightarrow> bytes \<Rightarrow> bytes option"
  and skipGroup_upto :: "nat \<Rightarrow> bytes \<Rightarrow> bytes option" where
  "skipType_upto 0 wt bs = None"
| "skipType_upto (Suc n) wt bs =
     (if wt = 0 then r_skip_varint bs
      else if wt = 1 then r_skip 8 bs
      else if wt = 2 then
        (case r_uint32 bs of None \<Rightarrow> None | Some (len, rest) \<Rightarrow> r_skip (unat len) rest)
      else if wt = 3 then skipGroup_upto n bs
      else if wt = 5 then r_skip 4 bs
      else None)"
| "skipGroup_upto 0 bs = None"
| "skipGroup_upto (Suc n) bs =
     (case r_uint32 bs of
        None \<Rightarrow> None
      | Some (t, rest) \<Rightarrow>
          if t AND 7 = 4 then Some rest
          else (case skipType_upto n (t AND 7) rest of
                  None \<Rightarrow> None
                | Some rest' \<Rightarrow> skipGroup_upto n rest'))"

definition r_skipType :: "32 word \<Rightarrow> bytes \<Rightarrow> bytes option" where
  "r_skipType wt bs = skipType_upto (2 * length bs + 2) wt bs"

section \<open>The Address message of the peer store\<close>

text \<open>
  \<^verbatim>\<open>interface Address\<close> of \<^verbatim>\<open>peer.ts\<close>. The two timestamps are of type
  \<open>bigint\<close>, any integer; an absent optional field is \<open>None\<close>.
\<close>

record Address =
  multiaddr :: bytes
  isCertified :: "bool option"
  lastSuccess :: "int option"
  lastFailure :: "int option"

definition Address_codec_encode :: "(int \<Rightarrow> 64 word) \<Rightarrow> Address \<Rightarrow> bool \<Rightarrow> bytes" where
  "Address_codec_encode fromBigInt obj lengthDelimited =
     (let body =
        (if length (multiaddr obj) > 0 then w_uint32 10 @ w_bytes (multiaddr obj) else [])
        @ (case isCertified obj of None \<Rightarrow> [] | Some b \<Rightarrow> w_uint32 16 @ w_bool b)
        @ (case lastSuccess obj of None \<Rightarrow> [] | Some v \<Rightarrow> w_uint32 24 @ w_uint64 fromBigInt v)
        @ (case lastFailure obj of None \<Rightarrow> [] | Some v \<Rightarrow> w_uint32 32 @ w_uint64 fromBigInt v)
      in if lengthDelimited then w_uint32 (of_nat (length body)) @ body else body)"

lemma readVarint_shorter:
  "readVarint k bs = Some (v, rest) \<Longrightarrow> length rest < length bs"
proof (induction k bs arbitrary: v rest rule: readVarint.induct)
  case (3 k b bs)
  then show ?case
    by (fastforce split: if_splits option.splits)
qed simp_all

lemma r_uint32_from_shorter:
  "r_uint32_from i v bs = Some (x, rest) \<Longrightarrow> length rest < length bs"
  by (induction i v bs rule: r_uint32_from.induct) (auto simp: Let_def split: if_splits)

lemma r_uint32_shorter: "r_uint32 bs = Some (v, rest) \<Longrightarrow> length rest < length bs"
  by (auto simp: r_uint32_def split: option.splits dest: r_uint32_from_shorter)

lemma readLongVarint_short_shorter:
  "readLongVarint_short i v bs = Some (x, rest) \<Longrightarrow>
   length rest \<le> length bs \<and> (i < 3 \<longrightarrow> length rest < length bs)"
  by (induction i v bs rule: readLongVarint_short.induct)
     (auto simp: Let_def split: if_splits)

lemma r_uint64_shorter: "r_uint64 bs = Some (v, rest) \<Longrightarrow> length rest < length bs"
  by (auto simp: r_uint64_def readLongVarint_def split: option.splits if_splits
      dest: readVarint_shorter readLongVarint_short_shorter)

lemma r_bool_shorter: "r_bool bs = Some (v, rest) \<Longrightarrow> length rest < length bs"
  by (auto simp: r_bool_def split: option.splits dest: r_uint32_shorter)

lemma r_bytes_shorter: "r_bytes bs = Some (v, rest) \<Longrightarrow> length rest < length bs"
  by (auto simp: r_bytes_def split: option.splits if_splits dest!: r_uint32_shorter)

lemma r_skip_varint_shorter: "r_skip_varint bs = Some rest \<Longrightarrow> length rest < length bs"
  by (induction bs) (auto split: if_splits)

lemma r_skip_shorter: "r_skip n bs = Some rest \<Longrightarrow> length rest \<le> length bs"
  by (auto simp: r_skip_def split: if_splits)

lemma skip_upto_shorter:
  "(\<forall>wt bs rest. skipType_upto n wt bs = Some rest \<longrightarrow> length rest \<le> length bs) \<and>
   (\<forall>bs rest. skipGroup_upto n bs = Some rest \<longrightarrow> length rest \<le> length bs)"
proof (induction n)
  case 0
  show ?case by simp
next
  case (Suc n)
  have T: "length rest \<le> length bs" if "skipType_upto n wt bs = Some rest" for wt bs rest
    using Suc that by blast
  have G: "length rest \<le> length bs" if "skipGroup_upto n bs = Some rest" for bs rest
    using Suc that by blast
  have 1: "length rest \<le> length bs" if h: "skipType_upto (Suc n) wt bs = Some rest" for wt bs rest
  proof -
    consider "wt = 0" | "wt = 1" | "wt = 2" | "wt = 3" | "wt = 5"
      using h by (auto split: if_splits)
    then show ?thesis
    proof cases
      case 1
      then show ?thesis using h r_skip_varint_shorter [of bs rest] by simp
    next
      case 2
      then show ?thesis using h r_skip_shorter [of 8 bs rest] by simp
    next
      case 3
      then obtain len r where a: "r_uint32 bs = Some (len, r)" and b: "r_skip (unat len) r = Some rest"
        using h by (auto split: option.splits)
      show ?thesis using r_uint32_shorter [OF a] r_skip_shorter [OF b] by simp
    next
      case 4
      then show ?thesis using h G [of bs rest] by simp
    next
      case 5
      then show ?thesis using h r_skip_shorter [of 4 bs rest] by simp
    qed
  qed
  have 2: "length rest \<le> length bs" if h: "skipGroup_upto (Suc n) bs = Some rest" for bs rest
  proof -
    obtain t r where a: "r_uint32 bs = Some (t, r)"
      using h by (auto split: option.splits)
    show ?thesis
    proof (cases "t AND 7 = 4")
      case True
      then show ?thesis using h a r_uint32_shorter [OF a] by simp
    next
      case False
      then obtain r' where b: "skipType_upto n (t AND 7) r = Some r'"
        and c: "skipGroup_upto n r' = Some rest"
        using h a by (auto split: option.splits)
      show ?thesis using r_uint32_shorter [OF a] T [OF b] G [OF c] by simp
    qed
  qed
  show ?case using 1 2 by blast
qed

lemma r_skipType_shorter: "r_skipType wt bs = Some rest \<Longrightarrow> length rest \<le> length bs"
  using skip_upto_shorter [of "2 * length bs + 2"] by (simp add: r_skipType_def)

text \<open>
  The bound on the nesting of groups that \<open>r_skipType\<close> starts with is enough: any higher
  bound gives the same result.
\<close>

lemma skipType_upto_shorter:
  "skipType_upto n wt bs = Some rest \<Longrightarrow> length rest \<le> length bs"
  using skip_upto_shorter [of n] by blast

lemma skip_upto_stable:
  "(\<forall>wt bs. 2 * length bs + 1 \<le> n \<longrightarrow> skipType_upto (Suc n) wt bs = skipType_upto n wt bs) \<and>
   (\<forall>bs. 2 * length bs \<le> n \<longrightarrow> skipGroup_upto (Suc n) bs = skipGroup_upto n bs)"
proof (induction n rule: less_induct)
  case (less n)
  have T: "skipType_upto (Suc m) wt bs = skipType_upto m wt bs"
    if "m < n" "2 * length bs + 1 \<le> m" for m wt bs
    using less.IH [OF that(1)] that(2) by blast
  have G: "skipGroup_upto (Suc m) bs = skipGroup_upto m bs"
    if "m < n" "2 * length bs \<le> m" for m bs
    using less.IH [OF that(1)] that(2) by blast
  have group: "skipGroup_upto (Suc n) bs = skipGroup_upto n bs" if b: "2 * length bs \<le> n" for bs
  proof (cases n)
    case 0
    with b have "bs = []" by simp
    then show ?thesis
      using 0 by (simp add: r_uint32_def)
  next
    case (Suc m)
    show ?thesis
    proof (cases "r_uint32 bs")
      case None
      then show ?thesis using Suc by simp
    next
      case (Some p)
      obtain t rest where p: "p = (t, rest)" by (cases p)
      have l: "length rest < length bs"
        using Some p r_uint32_shorter by blast
      have 1: "skipType_upto (Suc m) (t AND 7) rest = skipType_upto m (t AND 7) rest"
        using l b Suc by (intro T) auto
      have 2: "skipGroup_upto (Suc m) r = skipGroup_upto m r"
        if "skipType_upto m (t AND 7) rest = Some r" for r
      proof -
        have "length r \<le> length rest"
          using that by (rule skipType_upto_shorter)
        then show ?thesis
          using l b Suc by (intro G) auto
      qed
      show ?thesis
        using Some p Suc 1 2 by (auto split: option.splits)
    qed
  qed
  have type: "skipType_upto (Suc n) wt bs = skipType_upto n wt bs"
    if b: "2 * length bs + 1 \<le> n" for wt bs
  proof -
    from b obtain m where n: "n = Suc m" by (cases n) auto
    have "skipGroup_upto (Suc m) bs = skipGroup_upto m bs"
      using b n by (intro G) auto
    then show ?thesis
      using n by simp
  qed
  from group type show ?case by blast
qed

lemma skipType_upto_enough:
  "2 * length bs + 2 \<le> n \<Longrightarrow> skipType_upto n wt bs = r_skipType wt bs"
proof (induction n)
  case 0
  then show ?case by simp
next
  case (Suc n)
  show ?case
  proof (cases "2 * length bs + 2 \<le> n")
    case True
    then have "skipType_upto (Suc n) wt bs = skipType_upto n wt bs"
      using skip_upto_stable [of n] by auto
    then show ?thesis
      using Suc.IH [OF True] by simp
  next
    case False
    with Suc.prems have "Suc n = 2 * length bs + 2" by simp
    then show ?thesis
      by (simp add: r_skipType_def)
  qed
qed

function Address_decode_loop :: "Address \<Rightarrow> bytes \<Rightarrow> Address option" where
  "Address_decode_loop obj bs =
     (if bs = [] then Some obj
      else
        (case r_uint32 bs of
           None \<Rightarrow> None
         | Some (tag, r) \<Rightarrow>
             if drop_bit 3 tag = 1 then
               (case r_bytes r of
                  None \<Rightarrow> None
                | Some (v, r') \<Rightarrow> Address_decode_loop (obj\<lparr>multiaddr := v\<rparr>) r')
             else if drop_bit 3 tag = 2 then
               (case r_bool r of
                  None \<Rightarrow> None
                | Some (v, r') \<Rightarrow> Address_decode_loop (obj\<lparr>isCertified := Some v\<rparr>) r')
             else if drop_bit 3 tag = 3 then
               (case r_uint64 r of
                  None \<Rightarrow> None
                | Some (v, r') \<Rightarrow> Address_decode_loop (obj\<lparr>lastSuccess := Some v\<rparr>) r')
             else if drop_bit 3 tag = 4 then
               (case r_uint64 r of
                  None \<Rightarrow> None
                | Some (v, r') \<Rightarrow> Address_decode_loop (obj\<lparr>lastFailure := Some v\<rparr>) r')
             else
               (case r_skipType (tag AND 7) r of
                  None \<Rightarrow> None
                | Some r' \<Rightarrow> Address_decode_loop obj r')))"
  by pat_completeness auto
termination
proof (relation "measure (\<lambda>(obj, bs). length bs)")
qed (auto dest!: r_uint32_shorter r_bytes_shorter r_bool_shorter r_uint64_shorter r_skipType_shorter)

declare Address_decode_loop.simps [simp del]

text \<open>
  \<open>Address.encode\<close> is \<open>encodeMessage\<close>, which runs the codec without the length
  prefix; \<open>Address.decode\<close> is \<open>decodeMessage\<close>, which runs the decoder over the
  whole buffer, starting from the object \<open>{ multiaddr: new Uint8Array(0) }\<close>.
\<close>

definition Address_encode :: "(int \<Rightarrow> 64 word) \<Rightarrow> Address \<Rightarrow> bytes" where
  "Address_encode fromBigInt obj = Address_codec_encode fromBigInt obj False"

definition Address_decode :: "bytes \<Rightarrow> Address option" where
  "Address_decode buf =
     Address_decode_loop
       \<lparr>multiaddr = [], isCertified = None, lastSuccess = None, lastFailure = None\<rparr> buf"

section \<open>The TLS certificate of a peer\<close>

text \<open>
  \<^verbatim>\<open>packages/connection-encrypter-tls/src/utils.ts\<close>. Times are milliseconds since the
  epoch, as \<^verbatim>\<open>Date.now()\<close> and \<^verbatim>\<open>Date.getTime()\<close> give them.
\<close>

subsection \<open>Errors\<close>

text \<open>
  One constructor for each way the two functions fail, named after the error kinds of
  the specification. In the code:
  \<^item> \<open>CertificateNotYetValid\<close>: \<^verbatim>\<open>CodeError('The certificate is not valid yet', 'ERR_INVALID_CERTIFICATE')\<close>;
  \<^item> \<open>CertificateExpired\<close>: \<^verbatim>\<open>CodeError('The certificate has expired', 'ERR_INVALID_CERTIFICATE')\<close>;
  \<^item> \<open>InvalidSelfSignature\<close>: \<^verbatim>\<open>InvalidCryptoExchangeError('Invalid certificate self signature')\<close>;
  \<^item> \<open>NotSelfSigned\<close>: \<^verbatim>\<open>InvalidCryptoExchangeError('Certificate must be self signed')\<close>;
  \<^item> \<open>MissingLibp2pExtension\<close>: \<^verbatim>\<open>CodeError('The certificate did not include the libp2p public key extension', 'ERR_INVALID_CERTIFICATE')\<close>;
  \<^item> \<open>UnsupportedKeyType\<close>: \<^verbatim>\<open>InvalidCryptoExchangeError('Unknown or unsupported key type')\<close>;
  \<^item> \<open>InvalidCrossSignature\<close>: \<^verbatim>\<open>InvalidCryptoExchangeError('Could not verify signature')\<close>;
  \<^item> \<open>UnexpectedPeer\<close>: \<^verbatim>\<open>UnexpectedPeerError()\<close>;
  \<^item> \<open>MissingPrivateKey\<close>: \<^verbatim>\<open>InvalidCryptoExchangeError('Private key was missing from PeerId')\<close>;
  \<^item> \<open>MissingPublicKey\<close>: \<^verbatim>\<open>CodeError('Public key missing from PeerId', 'ERR_INVALID_PEER_ID')\<close>;
  \<^item> \<open>UnknownPeerIdType\<close>: \<^verbatim>\<open>CodeError('Unknown PeerId type', 'ERR_UNKNOWN_PEER_ID_TYPE')\<close>;
  \<^item> \<open>TypeError\<close>: the JavaScript runtime's error on reading a property of
    \<^verbatim>\<open>undefined\<close>, which the unchecked chain
    \<^verbatim>\<open>libp2pKeySequence.valueBlock.value[i].valueBlock.valueHex\<close> raises;
  \<^item> \<open>InvalidCertificate\<close>: the X.509 or the SubjectPublicKeyInfo parser throws;
  \<^item> \<open>MalformedKey\<close>: the public key decoder or a key constructor throws.
  The code has no throw site for a malformed extension value, so the specification's
  \<open>MalformedLibp2pExtension\<close> has no constructor.
\<close>

datatype error =
    InvalidCertificate
  | CertificateNotYetValid
  | CertificateExpired
  | InvalidSelfSignature
  | NotSelfSigned
  | MissingLibp2pExtension
  | TypeError
  | MalformedKey
  | UnsupportedKeyType
  | InvalidCrossSignature
  | UnexpectedPeer
  | MissingPrivateKey
  | MissingPublicKey
  | UnknownPeerIdType

subsection \<open>Data\<close>

text \<open>
  \<^verbatim>\<open>PeerId\<close> of \<^verbatim>\<open>@libp2p/interface\<close>: the fields the code reads.
\<close>

record PeerId =
  type :: string
  multihash :: bytes
  publicKey :: "bytes option"
  privateKey :: "bytes option"

text \<open>
  Modelled from the spec: \<^verbatim>\<open>PeerId.equals\<close> (package \<^verbatim>\<open>@libp2p/peer-id\<close>, not among
  the sources). Section 4.3: \<^verbatim>\<open>equals(a, b)\<close> is byte-equal multihash digests.
\<close>

definition equals :: "PeerId \<Rightarrow> PeerId \<Rightarrow> bool" where
  "equals a b = (multihash a = multihash b)"

text \<open>
  Modelled from the spec: \<^verbatim>\<open>KeyType\<close> and the decoded \<^verbatim>\<open>PublicKey\<close> message of
  \<^verbatim>\<open>../src/pb/index.js\<close> (not among the sources). Section 3 names the three key types;
  \<open>OtherKeyType\<close> stands for any other value of the enumeration. The code treats both
  fields of the decoded message as optional.
\<close>

datatype KeyType = Ed25519 | RSA | Secp256k1 | OtherKeyType

record PublicKey =
  pb_type :: "KeyType option"
  pb_data :: "bytes option"

text \<open>
  \<^verbatim>\<open>x509.Extension\<close> and \<^verbatim>\<open>x509.X509Certificate\<close>: the properties the code reads
  (\<open>publicKey_rawData\<close> is \<^verbatim>\<open>x509Cert.publicKey.rawData\<close>), and the DER bytes of the
  certificate.
\<close>

record Extension =
  ext_type :: string
  critical :: bool
  ext_value :: bytes

record X509Certificate =
  rawData :: bytes
  notBefore :: int
  notAfter :: int
  extensions :: "Extension list"
  publicKey_rawData :: bytes

text \<open>
  The block that \<^verbatim>\<open>asn1js.fromBER\<close> returns, by what the code can read of it: its tag
  number, its \<^verbatim>\<open>valueBlock.valueHex\<close> and its \<^verbatim>\<open>valueBlock.value\<close> (the list of its
  components), each of the two \<open>None\<close> where the property is \<^verbatim>\<open>undefined\<close>. Which
  block has which is for the library to say, the parameter \<open>fromBER\<close> below: in
  \<^verbatim>\<open>asn1js\<close> an OCTET STRING has both (a constructed one with an empty
  \<^verbatim>\<open>valueHex\<close>), a SEQUENCE has components and no \<^verbatim>\<open>valueHex\<close>, a NULL has neither,
  and neither has the block returned for bytes that do not decode.
  \<^verbatim>\<open>asn1js.fromBER\<close> does not throw.
\<close>

datatype Asn1 = Block nat "bytes option" "Asn1 list option"

text \<open>\<^verbatim>\<open>new asn1js.OctetString({ valueHex })\<close> and \<^verbatim>\<open>new asn1js.Sequence({ value })\<close>.\<close>

definition OctetString :: "bytes \<Rightarrow> Asn1" where
  "OctetString valueHex = Block 4 (Some valueHex) (Some [])"

definition Sequence :: "Asn1 list \<Rightarrow> Asn1" where
  "Sequence v = Block 16 None (Some v)"

text \<open>
  The key pair of \<^verbatim>\<open>crypto.subtle.generateKey\<close>, each key given by what
  \<^verbatim>\<open>crypto.subtle.exportKey('spki', key)\<close> returns for it, and the argument of
  \<^verbatim>\<open>X509CertificateGenerator.createSelfSigned\<close>.
\<close>

record CryptoKeyPair =
  ck_publicKey :: bytes
  ck_privateKey :: bytes

record X509CertificateCreateParams =
  serialNumber :: string
  p_notBefore :: int
  p_notAfter :: int
  keys :: CryptoKeyPair
  p_extensions :: "Extension list"


subsection \<open>The libraries\<close>

text \<open>
  The functions of other packages that the code calls are parameters of the model:
  \<^verbatim>\<open>@peculiar/x509\<close> (parsing, the signature check that \<^verbatim>\<open>verify()\<close> makes,
  \<^verbatim>\<open>isSelfSigned()\<close>, \<^verbatim>\<open>createSelfSigned\<close>, \<^verbatim>\<open>toString()\<close>), \<^verbatim>\<open>asn1js\<close>, the
  \<^verbatim>\<open>PublicKey\<close> codec of \<^verbatim>\<open>../src/pb/index.js\<close>, \<^verbatim>\<open>@libp2p/crypto/keys\<close>,
  \<^verbatim>\<open>@libp2p/peer-id\<close>, \<^verbatim>\<open>@peculiar/asn1-schema\<close> and \<^verbatim>\<open>uint8arrays\<close>. A function that
  can throw returns an option. \<open>'k\<close> is the type of public key objects, \<open>'s\<close> of private
  key objects and \<open>'a\<close> of parsed SubjectPublicKeyInfo objects.
\<close>

record ('k, 's, 'a) libs =
  x509_parse :: "bytes \<Rightarrow> X509Certificate option"
  x509_verifySignature :: "X509Certificate \<Rightarrow> bool"
  x509_isSelfSigned :: "X509Certificate \<Rightarrow> bool"
  x509_createSelfSigned :: "X509CertificateCreateParams \<Rightarrow> X509Certificate"
  x509_toString :: "X509Certificate \<Rightarrow> string"
  fromBER :: "bytes \<Rightarrow> Asn1"
  toBER :: "Asn1 \<Rightarrow> bytes"
  PublicKey_decode :: "bytes \<Rightarrow> PublicKey option"
  PublicKey_encode :: "PublicKey \<Rightarrow> bytes"
  newEd25519PublicKey :: "bytes \<Rightarrow> 'k option"
  newSecp256k1PublicKey :: "bytes \<Rightarrow> 'k option"
  unmarshalRsaPublicKey :: "bytes \<Rightarrow> 'k option"
  key_verify :: "'k \<Rightarrow> bytes \<Rightarrow> bytes \<Rightarrow> bool"
  key_marshal :: "'k \<Rightarrow> bytes"
  marshalPublicKey :: "'k \<Rightarrow> bytes"
  unmarshalPublicKey :: "bytes \<Rightarrow> 'k option"
  unmarshalPrivateKey :: "bytes \<Rightarrow> 's option"
  key_sign :: "'s \<Rightarrow> bytes \<Rightarrow> bytes"
  peerIdFromKeys :: "bytes \<Rightarrow> PeerId"
  spki_parse :: "bytes \<Rightarrow> 'a option"
  spki_serialize :: "'a \<Rightarrow> bytes"
  toBase64 :: "bytes \<Rightarrow> string"

text \<open>
  \<^verbatim>\<open>x509Cert.verify()\<close>, called with no argument: \<^verbatim>\<open>@peculiar/x509\<close> checks the signature
  of the certificate and then reads the clock itself (\<open>verifyTime\<close>), and answers true
  when the signature verifies and \<open>verifyTime\<close> is strictly between \<open>notBefore\<close> and
  \<open>notAfter\<close>. \<^verbatim>\<open>isSelfSigned()\<close> does not look at the clock.
\<close>

definition x509_verify :: "('k, 's, 'a) libs \<Rightarrow> int \<Rightarrow> X509Certificate \<Rightarrow> bool" where
  "x509_verify L verifyTime c =
     (x509_verifySignature L c \<and> notBefore c < verifyTime \<and> verifyTime < notAfter c)"

subsection \<open>Constants\<close>

definition LIBP2P_PUBLIC_KEY_EXTENSION :: string where
  "LIBP2P_PUBLIC_KEY_EXTENSION = ''1.3.6.1.4.1.53594.1.1''"

definition CERT_PREFIX :: string where
  "CERT_PREFIX = ''libp2p-tls-handshake:''"



subsection \<open>encodeSignatureData\<close>

text \<open>\<^verbatim>\<open>uint8ArrayFromString(s)\<close>: the UTF-8 bytes of a string; a \<open>char\<close> is a byte.\<close>

definition uint8ArrayFromString :: "string \<Rightarrow> bytes" where
  "uint8ArrayFromString s = map (\<lambda>c. of_nat (of_char c)) s"

definition encodeSignatureData :: "('k, 's, 'a) libs \<Rightarrow> bytes \<Rightarrow> error + bytes" where
  "encodeSignatureData L certPublicKey =
     (case spki_parse L certPublicKey of
        None \<Rightarrow> Inl InvalidCertificate
      | Some keyInfo \<Rightarrow>
          Inr (uint8ArrayFromString CERT_PREFIX @ spki_serialize L keyInfo))"

subsection \<open>generateSerialNumber\<close>

text \<open>
  The decimal digits of a natural number, and \<^verbatim>\<open>x.toFixed(0)\<close> for a number
  \<open>0 \<le> x < 10 ^ 21\<close>: the digits of the integer nearest to \<open>x\<close>, the larger one on a
  tie. \<^verbatim>\<open>Math.random()\<close> returns a double in \<open>[0, 1)\<close>, and multiplying it by
  \<open>2 ^ 52\<close> is exact, so the sample is taken as a real number.
\<close>

definition digit_char :: "nat \<Rightarrow> char" where
  "digit_char d = ''0123456789'' ! d"

function decimal :: "nat \<Rightarrow> string" where
  "decimal n = (if n < 10 then [digit_char n] else decimal (n div 10) @ [digit_char (n mod 10)])"
  by pat_completeness auto
termination
  by (relation "measure (\<lambda>n. n)") auto

declare decimal.simps [simp del]

definition toFixed0 :: "real \<Rightarrow> string" where
  "toFixed0 x = decimal (nat \<lfloor>x + 1 / 2\<rfloor>)"

definition startsWith :: "string \<Rightarrow> string \<Rightarrow> bool" where
  "startsWith s p = (take (length p) s = p)"

text \<open>
  \<open>random i\<close> is what the \<open>i\<close>-th call of \<^verbatim>\<open>Math.random()\<close> returns; the loop starts at
  call \<open>i\<close>. \<open>None\<close>: the loop never returns.
\<close>

partial_function (option) generateSerialNumber :: "(nat \<Rightarrow> real) \<Rightarrow> nat \<Rightarrow> string option" where
  "generateSerialNumber random i =
     (let serialNumber = toFixed0 (random i * 2 ^ 52)
      in if \<not> startsWith serialNumber ''80'' then Some serialNumber
         else generateSerialNumber random (Suc i))"

subsection \<open>verifyPeerCertificate\<close>

text \<open>
  \<^verbatim>\<open>blk.valueBlock.value[i].valueBlock.valueHex\<close>: a block without a list of
  components has \<^verbatim>\<open>undefined\<close> for \<^verbatim>\<open>valueBlock.value\<close>, and a missing component is
  \<^verbatim>\<open>undefined\<close>, so that reading through either is a \<^verbatim>\<open>TypeError\<close>. Otherwise the
  chain gives the \<^verbatim>\<open>valueHex\<close> of the component, or \<^verbatim>\<open>undefined\<close> (here \<open>None\<close>)
  without an error when the component has none. The tag of the block and of the
  component is not looked at.
\<close>

definition valueHex_at :: "Asn1 \<Rightarrow> nat \<Rightarrow> error + bytes option" where
  "valueHex_at blk i =
     (case blk of
        Block t valueHex comps \<Rightarrow>
          (case comps of
             None \<Rightarrow> Inl TypeError
           | Some v \<Rightarrow>
               (if i < length v then
                  (case v ! i of Block t' valueHex' comps' \<Rightarrow> Inr valueHex')
                else Inl TypeError)))"

text \<open>
  \<^verbatim>\<open>new Uint8Array(x, 0, x.byteLength)\<close>: a \<^verbatim>\<open>TypeError\<close> when \<open>x\<close> is
  \<^verbatim>\<open>undefined\<close>.
\<close>

definition toUint8Array :: "bytes option \<Rightarrow> error + bytes" where
  "toUint8Array x = (case x of None \<Rightarrow> Inl TypeError | Some valueHex \<Rightarrow> Inr valueHex)"

text \<open>The chain of \<^verbatim>\<open>if (remotePublicKey.type === ...)\<close> that builds the identity key.\<close>

definition remoteLibp2pPublicKey :: "('k, 's, 'a) libs \<Rightarrow> PublicKey \<Rightarrow> error + 'k" where
  "remoteLibp2pPublicKey L remotePublicKey =
     (let remotePublicKeyData = (case pb_data remotePublicKey of None \<Rightarrow> [] | Some d \<Rightarrow> d)
      in if pb_type remotePublicKey = Some Ed25519 then
           (case newEd25519PublicKey L remotePublicKeyData of
              None \<Rightarrow> Inl MalformedKey | Some k \<Rightarrow> Inr k)
         else if pb_type remotePublicKey = Some Secp256k1 then
           (case newSecp256k1PublicKey L remotePublicKeyData of
              None \<Rightarrow> Inl MalformedKey | Some k \<Rightarrow> Inr k)
         else if pb_type remotePublicKey = Some RSA then
           (case unmarshalRsaPublicKey L remotePublicKeyData of
              None \<Rightarrow> Inl MalformedKey | Some k \<Rightarrow> Inr k)
         else Inl UnsupportedKeyType)"

text \<open>
  \<open>now\<close> is what \<^verbatim>\<open>Date.now()\<close> returns on entry and \<open>verifyTime\<close> what the clock reads
  when \<^verbatim>\<open>x509Cert.verify()\<close> runs; \<open>None\<close> for \<open>expectedPeerId\<close> is an absent argument.
\<close>

definition verifyPeerCertificate ::
  "('k, 's, 'a) libs \<Rightarrow> int \<Rightarrow> int \<Rightarrow> bytes \<Rightarrow> PeerId option \<Rightarrow> error + PeerId" where
  "verifyPeerCertificate L now verifyTime rawCertificate expectedPeerId =
     (case x509_parse L rawCertificate of
        None \<Rightarrow> Inl InvalidCertificate
      | Some x509Cert \<Rightarrow>
     if notBefore x509Cert > now then Inl CertificateNotYetValid
     else if notAfter x509Cert < now then Inl CertificateExpired
     else if \<not> x509_verify L verifyTime x509Cert then Inl InvalidSelfSignature
     else if \<not> x509_isSelfSigned L x509Cert then Inl NotSelfSigned
     else
     (case extensions x509Cert of
        [] \<Rightarrow> Inl MissingLibp2pExtension
      | libp2pPublicKeyExtension # others \<Rightarrow>
     if ext_type libp2pPublicKeyExtension \<noteq> LIBP2P_PUBLIC_KEY_EXTENSION
     then Inl MissingLibp2pExtension
     else
     let libp2pKeySequence = fromBER L (ext_value libp2pPublicKeyExtension) in
     (case valueHex_at libp2pKeySequence 0 of
        Inl e \<Rightarrow> Inl e
      | Inr remotePeerIdPb \<Rightarrow>
     (case toUint8Array remotePeerIdPb of
        Inl e \<Rightarrow> Inl e
      | Inr marshalledPeerId \<Rightarrow>
     (case PublicKey_decode L marshalledPeerId of
        None \<Rightarrow> Inl MalformedKey
      | Some remotePublicKey \<Rightarrow>
     (case remoteLibp2pPublicKey L remotePublicKey of
        Inl e \<Rightarrow> Inl e
      | Inr remoteKey \<Rightarrow>
     (case valueHex_at libp2pKeySequence 1 of
        Inl e \<Rightarrow> Inl e
      | Inr remoteSignature \<Rightarrow>
     (case encodeSignatureData L (publicKey_rawData x509Cert) of
        Inl e \<Rightarrow> Inl e
      | Inr dataToVerify \<Rightarrow>
     (case toUint8Array remoteSignature of
        Inl e \<Rightarrow> Inl e
      | Inr signature \<Rightarrow>
     if \<not> key_verify L remoteKey dataToVerify signature
     then Inl InvalidCrossSignature
     else
     let marshalled = marshalPublicKey L remoteKey;
         remotePeerId = peerIdFromKeys L marshalled
     in (case expectedPeerId of
           None \<Rightarrow> Inr remotePeerId
         | Some expected \<Rightarrow>
             if equals expected remotePeerId = False then Inl UnexpectedPeer
             else Inr remotePeerId))))))))))"

subsection \<open>generateCertificate\<close>








section \<open>The stream bridge\<close>

text \<open>
  The sink of \<^verbatim>\<open>streamToIt\<close> and \<^verbatim>\<open>waitForBackpressure\<close>, as a state machine driven
  by what reaches the sink: the next item of the source it iterates, and the events the
  stream emits.
\<close>

text \<open>
  The events of a Node.js duplex stream; an \<^verbatim>\<open>error\<close> event carries the error (its
  message), which may be \<^verbatim>\<open>undefined\<close>.
\<close>

datatype stream_event = Drain | End | Error "string option" | Close | Finish | Data bytes

text \<open>
  \<^verbatim>\<open>waitForBackpressure\<close>: the promise has listeners for \<^verbatim>\<open>drain\<close>, \<^verbatim>\<open>end\<close> and
  \<^verbatim>\<open>error\<close>, and no other. For an event, \<open>None\<close> says that the promise stays pending,
  \<open>Some (Inr ())\<close> that it is resolved (\<open>continueListener\<close>), \<open>Some (Inl err)\<close> that it is
  rejected with \<open>err\<close> (\<open>stopListener\<close>, with \<^verbatim>\<open>err ?? new Error('Stream ended')\<close>).
  Either listener removes all three, so the promise sees one event at most.
\<close>

fun waitForBackpressure :: "stream_event \<Rightarrow> (string + unit) option" where
  "waitForBackpressure Drain = Some (Inr ())"
| "waitForBackpressure End = Some (Inl ''Stream ended'')"
| "waitForBackpressure (Error err) =
     Some (Inl (case err of None \<Rightarrow> ''Stream ended'' | Some e \<Rightarrow> e))"
| "waitForBackpressure ev = None"

text \<open>
  What reaches the sink: the source yields a chunk, which the sink writes at once
  (\<open>Next buf sendMore\<close>, where \<open>sendMore\<close> is what \<^verbatim>\<open>stream.write\<close> returns for it), the
  source ends, the source throws, or the stream emits an event.
\<close>

datatype stimulus = Next bytes bool | Done | Throw string | Emit stream_event

text \<open>
  Where the sink is: waiting for the next item of the source (\<open>Pulling\<close>), waiting for
  the promise of \<^verbatim>\<open>waitForBackpressure\<close> (\<open>Waiting\<close>), returned after
  \<^verbatim>\<open>stream.end()\<close>, or failed with an error after \<^verbatim>\<open>stream.destroy(err)\<close>.
\<close>

datatype sink_state = Pulling | Waiting | Returned | Failed string

text \<open>The calls the sink makes on the stream.\<close>

datatype stream_call = Write bytes | EndStream | Destroy string

text \<open>
  One step of the sink: the new state and the calls made. \<open>None\<close>: the stimulus cannot
  reach the sink in this state (the source is asked for its next item only when the
  body of the loop is over, and never after the loop).
\<close>

fun sink_step :: "sink_state \<Rightarrow> stimulus \<Rightarrow> (sink_state \<times> stream_call list) option" where
  "sink_step Pulling (Next buf sendMore) =
     Some (if \<not> sendMore then Waiting else Pulling, [Write buf])"
| "sink_step Pulling Done = Some (Returned, [EndStream])"
| "sink_step Pulling (Throw err) = Some (Failed err, [Destroy err])"
| "sink_step Waiting (Emit ev) =
     (case waitForBackpressure ev of
        None \<Rightarrow> Some (Waiting, [])
      | Some (Inr u) \<Rightarrow> Some (Pulling, [])
      | Some (Inl err) \<Rightarrow> Some (Failed err, [Destroy err]))"
| "sink_step s (Emit ev) = Some (s, [])"
| "sink_step s x = None"

text \<open>A run of the sink over a sequence of stimuli: the last state and all calls made.\<close>

fun sink_run :: "sink_state \<Rightarrow> stimulus list \<Rightarrow> (sink_state \<times> stream_call list) option" where
  "sink_run s [] = Some (s, [])"
| "sink_run s (x # xs) =
     (case sink_step s x of
        None \<Rightarrow> None
      | Some (s', calls) \<Rightarrow>
          (case sink_run s' xs of
             None \<Rightarrow> None
           | Some (s'', calls') \<Rightarrow> Some (s'', calls @ calls')))"

section \<open>A small instance of the libraries\<close>

text \<open>
  An instance of the library parameters on which the functions can be run. A public key
  object is its marshalled form (a byte for the key type, then the key data), a private
  key is the same bytes, a signature is the key followed by the message, and a peer id
  carries the identity multihash of the marshalled public key. ASN.1 blocks of two
  levels are written as a tag followed by the count of components or by the content,
  each content byte after a byte 1 and the content closed by a byte 0; a block read
  back from a content has it as \<^verbatim>\<open>valueHex\<close> and an empty list of components, a block
  read back from components has no \<^verbatim>\<open>valueHex\<close>, and bytes that do not decode give a
  block with neither. The signature of every certificate verifies. The X.509 parser
  knows the certificates of a list \<open>store\<close>, by their bytes.
\<close>

definition sample_keyType_byte :: "KeyType option \<Rightarrow> byte" where
  "sample_keyType_byte t =
     (case t of None \<Rightarrow> 255 | Some Ed25519 \<Rightarrow> 0 | Some RSA \<Rightarrow> 1
      | Some Secp256k1 \<Rightarrow> 2 | Some OtherKeyType \<Rightarrow> 3)"

definition sample_PublicKey_encode :: "PublicKey \<Rightarrow> bytes" where
  "sample_PublicKey_encode m =
     sample_keyType_byte (pb_type m) # (case pb_data m of None \<Rightarrow> [] | Some d \<Rightarrow> d)"

definition sample_PublicKey_decode :: "bytes \<Rightarrow> PublicKey option" where
  "sample_PublicKey_decode bs =
     (case bs of
        [] \<Rightarrow> None
      | t # d \<Rightarrow>
          Some \<lparr>pb_type =
                  (if t = 255 then None else if t = 0 then Some Ed25519
                   else if t = 1 then Some RSA else if t = 2 then Some Secp256k1
                   else Some OtherKeyType),
                pb_data = Some d\<rparr>)"

definition sample_peerIdFromKeys :: "bytes \<Rightarrow> PeerId" where
  "sample_peerIdFromKeys bs =
     \<lparr>type = (case bs of [] \<Rightarrow> ''RSA''
               | t # d \<Rightarrow> if t = 0 then ''Ed25519'' else if t = 2 then ''secp256k1'' else ''RSA''),
      multihash = 0 # of_nat (length bs) # bs,
      publicKey = Some bs,
      privateKey = None\<rparr>"

fun sample_content :: "bytes \<Rightarrow> bytes" where
  "sample_content [] = [0]"
| "sample_content (x # xs) = 1 # x # sample_content xs"

fun sample_read :: "bytes \<Rightarrow> (bytes \<times> bytes) option" where
  "sample_read [] = None"
| "sample_read [b] = (if b = 0 then Some ([], []) else None)"
| "sample_read (b # x # rest) =
     (if b = 0 then Some ([], x # rest)
      else (case sample_read rest of
              None \<Rightarrow> None
            | Some (v, r) \<Rightarrow> Some (x # v, r)))"

fun sample_prim :: "Asn1 \<Rightarrow> bytes" where
  "sample_prim (Block t (Some v) comps) = of_nat t # sample_content v"
| "sample_prim (Block t None comps) = []"

definition sample_toBER :: "Asn1 \<Rightarrow> bytes" where
  "sample_toBER b =
     (case b of
        Block t None (Some v) \<Rightarrow> of_nat (32 + t) # of_nat (length v) # concat (map sample_prim v)
      | _ \<Rightarrow> sample_prim b)"

fun sample_prims :: "nat \<Rightarrow> bytes \<Rightarrow> (Asn1 list \<times> bytes) option" where
  "sample_prims 0 bs = Some ([], bs)"
| "sample_prims (Suc n) [] = None"
| "sample_prims (Suc n) (t # bs) =
     (case sample_read bs of
        None \<Rightarrow> None
      | Some (c, rest) \<Rightarrow>
          (case sample_prims n rest of
             None \<Rightarrow> None
           | Some (v, r) \<Rightarrow> Some (Block (unat t) (Some c) (Some []) # v, r)))"

definition sample_fromBER :: "bytes \<Rightarrow> Asn1" where
  "sample_fromBER bs =
     (case bs of
        [] \<Rightarrow> Block 0 None None
      | t # rest \<Rightarrow>
          if 32 \<le> t then
            (case rest of
               [] \<Rightarrow> Block 0 None None
             | n # comps \<Rightarrow>
                 (case sample_prims (unat n) comps of
                    Some (v, []) \<Rightarrow> Block (unat t - 32) None (Some v)
                  | _ \<Rightarrow> Block 0 None None))
          else
            (case sample_read rest of
               Some (c, []) \<Rightarrow> Block (unat t) (Some c) (Some [])
             | _ \<Rightarrow> Block 0 None None))"

definition sample_createSelfSigned :: "X509CertificateCreateParams \<Rightarrow> X509Certificate" where
  "sample_createSelfSigned p =
     \<lparr>rawData = uint8ArrayFromString (serialNumber p),
      notBefore = p_notBefore p,
      notAfter = p_notAfter p,
      extensions = p_extensions p,
      publicKey_rawData = ck_publicKey (keys p)\<rparr>"

definition sample_libs :: "X509Certificate list \<Rightarrow> (bytes, bytes, bytes) libs" where
  "sample_libs store =
     \<lparr>x509_parse = (\<lambda>raw. find (\<lambda>c. rawData c = raw) store),
      x509_verifySignature = (\<lambda>c. True),
      x509_isSelfSigned = (\<lambda>c. True),
      x509_createSelfSigned = sample_createSelfSigned,
      x509_toString = (\<lambda>c. map (\<lambda>b. char_of (unat b)) (rawData c)),
      fromBER = sample_fromBER,
      toBER = sample_toBER,
      PublicKey_decode = sample_PublicKey_decode,
      PublicKey_encode = sample_PublicKey_encode,
      newEd25519PublicKey = (\<lambda>d. if length d = 32 then Some (0 # d) else None),
      newSecp256k1PublicKey = (\<lambda>d. if length d = 33 then Some (2 # d) else None),
      unmarshalRsaPublicKey = (\<lambda>d. if d = [] then None else Some (1 # d)),
      key_verify = (\<lambda>k msg sg. sg = k @ msg),
      key_marshal = tl,
      marshalPublicKey = (\<lambda>k. k),
      unmarshalPublicKey = (\<lambda>bs. if bs = [] then None else Some bs),
      unmarshalPrivateKey = (\<lambda>bs. if bs = [] then None else Some bs),
      key_sign = (\<lambda>s msg. s @ msg),
      peerIdFromKeys = sample_peerIdFromKeys,
      spki_parse = (\<lambda>bs. if bs = [] then None else Some bs),
      spki_serialize = (\<lambda>k. k),
      toBase64 = map (\<lambda>b. char_of (unat b))\<rparr>"

text \<open>
  A peer with an RSA key, the payload signed for the certificate key \<open>[9]\<close>, and
  extension values holding the peer's key and its signature: as a sequence of two octet
  strings, with a third component added, and with a wrong signature.
\<close>

definition sample_peer :: PeerId where
  "sample_peer = (sample_peerIdFromKeys [1, 7])\<lparr>privateKey := Some [1, 7]\<rparr>"

definition sample_payload :: bytes where
  "sample_payload = uint8ArrayFromString CERT_PREFIX @ [9]"

definition sample_extension :: "Asn1 \<Rightarrow> Extension" where
  "sample_extension b =
     \<lparr>ext_type = LIBP2P_PUBLIC_KEY_EXTENSION, critical = True, ext_value = sample_toBER b\<rparr>"

definition sample_cert :: "bytes \<Rightarrow> int \<Rightarrow> int \<Rightarrow> Extension list \<Rightarrow> X509Certificate" where
  "sample_cert raw nb na exts =
     \<lparr>rawData = raw, notBefore = nb, notAfter = na, extensions = exts,
      publicKey_rawData = [9]\<rparr>"


definition good_value :: Asn1 where
  "good_value = Sequence [OctetString [1, 7], OctetString ([1, 7] @ sample_payload)]"

definition three_value :: Asn1 where
  "three_value =
     Sequence [OctetString [1, 7], OctetString ([1, 7] @ sample_payload), OctetString [0]]"

definition forged_value :: Asn1 where
  "forged_value = Sequence [OctetString [1, 7], OctetString [0, 0]]"


text \<open>
  A conversion for \<open>fromBigInt\<close> to run the encoder with: it keeps the low 64 bits of
  the integer, as the runtime does of \<open>2 ^ 64\<close>.
\<close>

definition sample_fromBigInt :: "int \<Rightarrow> 64 word" where
  "sample_fromBigInt v = word_of_int v"

section \<open>Round trip of the Address codec\<close>

text \<open>What the writer emits for a value, the reader gives back, whatever follows it.\<close>

lemma writeVarint_small: "n < 128 \<Longrightarrow> writeVarint n = [of_nat n]"
  by (simp add: writeVarint.simps [of n])

lemma writeVarint_large:
  "\<not> n < 128 \<Longrightarrow> writeVarint n = of_nat (n mod 128 + 128) # writeVarint (n div 128)"
  by (simp add: writeVarint.simps [of n])

lemma writeVarint_nonempty: "writeVarint n \<noteq> []"
  by (cases "n < 128") (simp_all add: writeVarint_small writeVarint_large)

lemma low_byte: "n < 128 \<Longrightarrow> unat (of_nat n :: byte) = n \<and> (of_nat n :: byte) < 128"
proof -
  assume n: "n < 128"
  then have u: "unat (of_nat n :: byte) = n"
    by (simp add: unat_of_nat)
  then show ?thesis
    using n by (simp add: word_less_nat_alt)
qed

lemma high_byte:
  "unat (of_nat (n mod 128 + 128) :: byte) = n mod 128 + 128 \<and>
   \<not> (of_nat (n mod 128 + 128) :: byte) < 128"
proof -
  let ?b = "of_nat (n mod 128 + 128) :: byte"
  have "n mod 128 + 128 < 256" by simp
  then have u: "unat ?b = n mod 128 + 128"
    by (simp only: unat_of_nat) simp
  then show ?thesis
    by (simp add: word_less_nat_alt)
qed

lemma split_low: "(n mod 128) * k + (n div 128) * (128 * k) = n * (k::nat)"
proof -
  have "(n mod 128 + (n div 128) * 128) * k = n * k"
    by simp
  then show ?thesis
    by (simp only: add_mult_distrib mult.assoc)
qed

lemma readVarint_writeVarint:
  "n < 128 ^ Suc k \<Longrightarrow> readVarint (Suc k) (writeVarint n @ rest) = Some (n, rest)"
proof (induction k arbitrary: n)
  case 0
  then show ?case
    using low_byte [of n] by (simp add: writeVarint_small)
next
  case (Suc k)
  show ?case
  proof (cases "n < 128")
    case True
    then show ?thesis
      using low_byte [of n] by (simp add: writeVarint_small)
  next
    case False
    have "n div 128 < 128 ^ Suc k"
      using Suc.prems by (simp add: less_mult_imp_div_less mult.commute)
    then have "readVarint (Suc k) (writeVarint (n div 128) @ rest) = Some (n div 128, rest)"
      by (rule Suc.IH)
    then show ?thesis
      using False high_byte [of n] by (simp add: writeVarint_large)
  qed
qed

lemma readVarint10_writeVarint:
  "n < 2 ^ 64 \<Longrightarrow> readVarint 10 (writeVarint n @ rest) = Some (n, rest)"
proof -
  assume "n < 2 ^ 64"
  then have "n < 128 ^ Suc 9" by simp
  then have "readVarint (Suc 9) (writeVarint n @ rest) = Some (n, rest)"
    by (rule readVarint_writeVarint)
  then show ?thesis by simp
qed

text \<open>The reader of 32-bit values, from its last byte back to its first.\<close>

lemma r_uint32_from_last:
  "n < 16 \<Longrightarrow> r_uint32_from 4 v (writeVarint n @ rest) = Some (v + n * 2 ^ 28, rest)"
  using low_byte [of n] by (simp add: writeVarint_small)

lemma r_uint32_from_step:
  assumes i: "i < 4" and j: "j = Suc i"
    and later: "\<And>m w. m < B \<Longrightarrow>
      r_uint32_from j w (writeVarint m @ rest) = Some (w + m * (128 * 2 ^ (7 * i)), rest)"
    and n: "n < 128 * B"
  shows "r_uint32_from i v (writeVarint n @ rest) = Some (v + n * 2 ^ (7 * i), rest)"
proof (cases "n < 128")
  case True
  then show ?thesis
    using i low_byte [of n] by (simp add: writeVarint_small)
next
  case False
  have "n div 128 < B"
    using n by (simp add: less_mult_imp_div_less mult.commute)
  then have "r_uint32_from j (v + (n mod 128) * 2 ^ (7 * i)) (writeVarint (n div 128) @ rest)
      = Some (v + (n mod 128) * 2 ^ (7 * i) + (n div 128) * (128 * 2 ^ (7 * i)), rest)"
    by (rule later)
  moreover have "(n mod 128) * 2 ^ (7 * i) + (n div 128) * (128 * 2 ^ (7 * i)) = n * 2 ^ (7 * i)"
    by (rule split_low)
  ultimately show ?thesis
    using i j False high_byte [of n] by (simp add: writeVarint_large)
qed

lemma r_uint32_from_writeVarint:
  assumes "n < 2 ^ 32"
  shows "r_uint32_from 0 0 (writeVarint n @ rest) = Some (n, rest)"
proof -
  have 4: "r_uint32_from (Suc 3) w (writeVarint m @ rest) = Some (w + m * (128 * 2 ^ (7 * 3)), rest)"
    if "m < 16" for m w
  proof -
    have "Suc 3 = 4" "(128::nat) * 2 ^ (7 * 3) = 2 ^ 28" by simp_all
    then show ?thesis
      using r_uint32_from_last [OF that, of w rest] by (simp only:)
  qed
  have 3: "r_uint32_from (Suc 2) w (writeVarint m @ rest) = Some (w + m * (128 * 2 ^ (7 * 2)), rest)"
    if "m < 128 * 16" for m w
  proof -
    have "r_uint32_from 3 w (writeVarint m @ rest) = Some (w + m * 2 ^ (7 * 3), rest)"
      by (rule r_uint32_from_step [OF _ refl 4 that]) simp
    moreover have "Suc 2 = 3" "(128::nat) * 2 ^ (7 * 2) = 2 ^ (7 * 3)" by simp_all
    ultimately show ?thesis by (simp only:)
  qed
  have 2: "r_uint32_from (Suc 1) w (writeVarint m @ rest) = Some (w + m * (128 * 2 ^ (7 * 1)), rest)"
    if "m < 128 * (128 * 16)" for m w
  proof -
    have "r_uint32_from 2 w (writeVarint m @ rest) = Some (w + m * 2 ^ (7 * 2), rest)"
      by (rule r_uint32_from_step [OF _ refl 3 that]) simp
    moreover have "Suc 1 = 2" "(128::nat) * 2 ^ (7 * 1) = 2 ^ (7 * 2)" by simp_all
    ultimately show ?thesis by (simp only:)
  qed
  have 1: "r_uint32_from (Suc 0) w (writeVarint m @ rest) = Some (w + m * (128 * 2 ^ (7 * 0)), rest)"
    if "m < 128 * (128 * (128 * 16))" for m w
  proof -
    have "r_uint32_from 1 w (writeVarint m @ rest) = Some (w + m * 2 ^ (7 * 1), rest)"
      by (rule r_uint32_from_step [OF _ refl 2 that]) simp
    moreover have "Suc 0 = 1" "(128::nat) * 2 ^ (7 * 0) = 2 ^ (7 * 1)" by simp_all
    ultimately show ?thesis by (simp only:)
  qed
  have n: "n < 128 * (128 * (128 * (128 * 16)))"
    using assms by simp
  have "r_uint32_from 0 0 (writeVarint n @ rest) = Some (0 + n * 2 ^ (7 * 0), rest)"
    by (rule r_uint32_from_step [OF _ refl 1 n]) simp
  then show ?thesis by simp
qed


lemma r_uint32_w_uint32: "r_uint32 (w_uint32 v @ rest) = Some (v, rest)"
proof -
  have "unat v < 2 ^ 32"
    using unsigned_less [of v] by simp
  then have "r_uint32_from 0 0 (writeVarint (unat v) @ rest) = Some (unat v, rest)"
    by (rule r_uint32_from_writeVarint)
  then show ?thesis
    by (simp add: r_uint32_def w_uint32_def)
qed

text \<open>The reader of 64-bit values, on a short buffer and on a long one.\<close>

lemma readLongVarint_short_writeVarint:
  "i + length (writeVarint n @ rest) \<le> 4 \<Longrightarrow>
   readLongVarint_short i v (writeVarint n @ rest) = Some (v + n * 2 ^ (7 * i), rest)"
proof (induction n arbitrary: i v rule: writeVarint.induct)
  case (1 n)
  show ?case
  proof (cases "n < 128")
    case True
    show ?thesis
    proof (cases "i < 3")
      case True
      with \<open>n < 128\<close> show ?thesis
        using low_byte [of n] by (simp add: writeVarint_small)
    next
      case False
      with "1.prems" \<open>n < 128\<close> have "rest = []"
        by (cases rest) (simp_all add: writeVarint_small)
      with False \<open>n < 128\<close> show ?thesis
        using low_byte [of n] by (simp add: writeVarint_small)
    qed
  next
    case False
    have "1 \<le> length (writeVarint (n div 128))"
      using writeVarint_nonempty [of "n div 128"] by (cases "writeVarint (n div 128)") auto
    with "1.prems" False have i: "i < 3" and
      l: "Suc i + length (writeVarint (n div 128) @ rest) \<le> 4"
      by (simp_all add: writeVarint_large)
    have e: "(2::nat) ^ (7 * Suc i) = 128 * 2 ^ (7 * i)"
      by (simp add: power_add)
    have "readLongVarint_short (Suc i) (v + (n mod 128) * 2 ^ (7 * i))
            (writeVarint (n div 128) @ rest)
          = Some (v + (n mod 128) * 2 ^ (7 * i) + (n div 128) * 2 ^ (7 * Suc i), rest)"
      using "1.IH" [OF False l] .
    then have "readLongVarint_short (Suc i) (v + (n mod 128) * 2 ^ (7 * i))
            (writeVarint (n div 128) @ rest)
          = Some (v + n * 2 ^ (7 * i), rest)"
      by (simp only: e add.assoc split_low)
    then show ?thesis
      using i False high_byte [of n] by (simp add: writeVarint_large)
  qed
qed

lemma readLongVarint_writeVarint:
  assumes "n < 2 ^ 64"
  shows "readLongVarint (writeVarint n @ rest) = Some (n, rest)"
proof (cases "length (writeVarint n @ rest) > 4")
  case True
  then show ?thesis
    using assms readVarint10_writeVarint [OF assms, of rest] by (simp add: readLongVarint_def)
next
  case False
  then have "0 + length (writeVarint n @ rest) \<le> 4" by simp
  then have "readLongVarint_short 0 0 (writeVarint n @ rest) = Some (0 + n * 2 ^ (7 * 0), rest)"
    by (rule readLongVarint_short_writeVarint)
  then show ?thesis
    using False by (simp add: readLongVarint_def)
qed

lemma r_uint64_w_uint64:
  "r_uint64 (w_uint64 fromBigInt v @ rest) = Some (uint (fromBigInt v), rest)"
proof -
  have "unat (fromBigInt v) < 2 ^ 64"
    using unsigned_less [of "fromBigInt v"] by simp
  then have "readLongVarint (writeVarint (unat (fromBigInt v)) @ rest)
               = Some (unat (fromBigInt v), rest)"
    by (rule readLongVarint_writeVarint)
  then show ?thesis
    by (simp add: r_uint64_def w_uint64_def)
qed

lemma w_bool_as_uint32: "w_bool b = w_uint32 (if b then 1 else 0)"
  by (simp add: w_bool_def w_uint32_def writeVarint.simps)

lemma r_bool_w_bool: "r_bool (w_bool b @ rest) = Some (b, rest)"
  by (simp add: r_bool_def w_bool_as_uint32 r_uint32_w_uint32)

lemma r_bytes_w_bytes:
  "length v < 2 ^ 32 \<Longrightarrow> r_bytes (w_bytes v @ rest) = Some (v, rest)"
  by (simp add: r_bytes_def w_bytes_def r_uint32_w_uint32 unat_of_nat)

text \<open>
  One pass of the decoder's loop over one field written by the encoder: the field is
  stored in the object and the loop goes on with the rest of the buffer. A timestamp
  comes back as the 64 bits that the writer made of it.
\<close>

lemma tag_field: "drop_bit 3 (10 :: 32 word) = 1" "drop_bit 3 (16 :: 32 word) = 2"
  "drop_bit 3 (24 :: 32 word) = 3" "drop_bit 3 (32 :: 32 word) = 4"
  by simp_all

lemma w_uint32_nonempty: "w_uint32 v \<noteq> []"
  by (simp add: w_uint32_def writeVarint_nonempty)

lemma loop_multiaddr:
  "length v < 2 ^ 32 \<Longrightarrow>
   Address_decode_loop obj (w_uint32 10 @ w_bytes v @ rest) =
     Address_decode_loop (obj\<lparr>multiaddr := v\<rparr>) rest"
  by (subst Address_decode_loop.simps)
     (simp add: w_uint32_nonempty r_uint32_w_uint32 r_bytes_w_bytes)

lemma loop_isCertified:
  "Address_decode_loop obj (w_uint32 16 @ w_bool b @ rest) =
     Address_decode_loop (obj\<lparr>isCertified := Some b\<rparr>) rest"
  by (subst Address_decode_loop.simps)
     (simp add: w_uint32_nonempty r_uint32_w_uint32 r_bool_w_bool)

lemma loop_lastSuccess:
  "Address_decode_loop obj (w_uint32 24 @ w_uint64 fromBigInt v @ rest) =
     Address_decode_loop (obj\<lparr>lastSuccess := Some (uint (fromBigInt v))\<rparr>) rest"
  by (subst Address_decode_loop.simps)
     (simp add: w_uint32_nonempty r_uint32_w_uint32 r_uint64_w_uint64)

lemma loop_lastFailure:
  "Address_decode_loop obj (w_uint32 32 @ w_uint64 fromBigInt v @ rest) =
     Address_decode_loop (obj\<lparr>lastFailure := Some (uint (fromBigInt v))\<rparr>) rest"
  by (subst Address_decode_loop.simps)
     (simp add: w_uint32_nonempty r_uint32_w_uint32 r_uint64_w_uint64)

lemma loop_end: "Address_decode_loop obj [] = Some obj"
  by (subst Address_decode_loop.simps) simp

text \<open>The decoder on what the encoder writes for any record.\<close>

lemma Address_decode_encode:
  assumes "length m < 2 ^ 32"
  shows "Address_decode (Address_encode fromBigInt
           \<lparr>multiaddr = m, isCertified = c, lastSuccess = s, lastFailure = f\<rparr>) =
         Some \<lparr>multiaddr = m, isCertified = c,
               lastSuccess = map_option (\<lambda>v. uint (fromBigInt v)) s,
               lastFailure = map_option (\<lambda>v. uint (fromBigInt v)) f\<rparr>"
  unfolding Address_decode_def Address_encode_def Address_codec_encode_def
  using assms
  by (cases "m = []"; cases c; cases s; cases f)
     (simp_all add: loop_multiaddr loop_isCertified loop_lastSuccess loop_lastFailure
        loop_end loop_isCertified [where rest = "[]", simplified]
        loop_lastSuccess [where rest = "[]", simplified]
        loop_lastFailure [where rest = "[]", simplified]
        loop_multiaddr [where rest = "[]", simplified])

lemma sample_fromBigInt_uint: "uint (sample_fromBigInt v) = v mod 2 ^ 64"
  by (simp add: sample_fromBigInt_def uint_word_of_int)

text \<open>
  Claim C10, as amended. For every Address record whose multiaddr is shorter than
  \<open>2 ^ 32\<close> bytes and whose \<open>lastSuccess\<close> and \<open>lastFailure\<close>, where present, are in the
  range of a \<open>uint64\<close> (from 0 to \<open>2 ^ 64 - 1\<close>), with the optional fields
  \<open>isCertified\<close>, \<open>lastSuccess\<close> and \<open>lastFailure\<close> present or absent, decoding the
  result of \<open>Address.encode\<close> gives back the record: absent fields stay absent, present
  ones keep their values, and an empty multiaddr (which the encoder leaves out) comes
  back as the empty byte string the decoder starts from. The writer's conversion of a
  \<open>bigint\<close> is taken to keep every integer in the range of a \<open>uint64\<close> as it is.
\<close>

theorem Address_roundtrip:
  assumes "\<forall>v. 0 \<le> v \<and> v < 2 ^ 64 \<longrightarrow> uint (fromBigInt v) = v"
    and "length (multiaddr a) < 2 ^ 32"
    and "\<forall>v. lastSuccess a = Some v \<longrightarrow> 0 \<le> v \<and> v < 2 ^ 64"
    and "\<forall>v. lastFailure a = Some v \<longrightarrow> 0 \<le> v \<and> v < 2 ^ 64"
  shows "Address_decode (Address_encode fromBigInt a) = Some a"
proof -
  obtain m c s f where a: "a = \<lparr>multiaddr = m, isCertified = c, lastSuccess = s, lastFailure = f\<rparr>"
    by (cases a) auto
  from assms(2) a have m: "length m < 2 ^ 32" by simp
  from assms(1,3) a have s: "map_option (\<lambda>v. uint (fromBigInt v)) s = s"
    by (cases s) simp_all
  from assms(1,4) a have f: "map_option (\<lambda>v. uint (fromBigInt v)) f = f"
    by (cases f) simp_all
  have "Address_decode (Address_encode fromBigInt
           \<lparr>multiaddr = m, isCertified = c, lastSuccess = s, lastFailure = f\<rparr>) =
         Some \<lparr>multiaddr = m, isCertified = c,
               lastSuccess = map_option (\<lambda>v. uint (fromBigInt v)) s,
               lastFailure = map_option (\<lambda>v. uint (fromBigInt v)) f\<rparr>"
    by (rule Address_decode_encode [OF m])
  then show ?thesis
    unfolding a by (simp only: s f)
qed

theorem Address_roundtrip_witness:
  "Address_decode (Address_encode sample_fromBigInt
     \<lparr>multiaddr = [4, 127, 0, 0, 1], isCertified = Some False,
        lastSuccess = Some 300, lastFailure = None\<rparr>) =
   Some \<lparr>multiaddr = [4, 127, 0, 0, 1], isCertified = Some False,
        lastSuccess = Some 300, lastFailure = None\<rparr>"
proof -
  let ?a = "\<lparr>multiaddr = [4, 127, 0, 0, 1], isCertified = Some False,
        lastSuccess = Some 300, lastFailure = None\<rparr>"
  have 0: "\<forall>v. 0 \<le> v \<and> v < 2 ^ 64 \<longrightarrow> uint (sample_fromBigInt v) = v"
    by (simp add: sample_fromBigInt_uint)
  have 1: "length (multiaddr ?a) < 2 ^ 32" by simp
  have 2: "\<forall>v. lastSuccess ?a = Some v \<longrightarrow> 0 \<le> v \<and> v < 2 ^ 64" by simp
  have 3: "\<forall>v. lastFailure ?a = Some v \<longrightarrow> 0 \<le> v \<and> v < 2 ^ 64" by simp
  show ?thesis
    by (rule Address_roundtrip [OF 0 1 2 3])
qed

text \<open>
  The claim as stated, for every Address record, fails on a timestamp outside the
  range of a \<open>uint64\<close>: of \<open>2 ^ 64\<close> the writer keeps the 64 bits of 0, and 0 comes
  back.
\<close>

theorem timestamp_counterexample:
  "Address_decode (Address_encode sample_fromBigInt
     \<lparr>multiaddr = [], isCertified = None, lastSuccess = Some (2 ^ 64), lastFailure = None\<rparr>) =
   Some \<lparr>multiaddr = [], isCertified = None, lastSuccess = Some 0, lastFailure = None\<rparr> \<and>
   Address_decode (Address_encode sample_fromBigInt
     \<lparr>multiaddr = [], isCertified = None, lastSuccess = Some (2 ^ 64), lastFailure = None\<rparr>) \<noteq>
   Some \<lparr>multiaddr = [], isCertified = None, lastSuccess = Some (2 ^ 64), lastFailure = None\<rparr>"
proof -
  have "length ([] :: bytes) < 2 ^ 32" by simp
  then show ?thesis
    by (simp add: Address_decode_encode sample_fromBigInt_uint)
qed

section \<open>Properties of verifyPeerCertificate\<close>

text \<open>The errors that the helper functions can give.\<close>

lemma valueHex_at_error: "valueHex_at blk i = Inl e \<Longrightarrow> e = TypeError"
  by (auto simp: valueHex_at_def split: Asn1.splits option.splits if_splits)

lemma toUint8Array_error: "toUint8Array x = Inl e \<Longrightarrow> e = TypeError"
  by (auto simp: toUint8Array_def split: option.splits)

lemma toUint8Array_Inr: "(toUint8Array x = Inr v) = (x = Some v)"
  by (auto simp: toUint8Array_def split: option.splits)

lemma remoteLibp2pPublicKey_error:
  "remoteLibp2pPublicKey L pb = Inl e \<Longrightarrow> e = MalformedKey \<or> e = UnsupportedKeyType"
  by (auto simp: remoteLibp2pPublicKey_def Let_def split: option.splits if_splits)

lemma encodeSignatureData_error: "encodeSignatureData L spki = Inl e \<Longrightarrow> e = InvalidCertificate"
  by (auto simp: encodeSignatureData_def split: option.splits)

text \<open>The function up to the checks of the certificate itself.\<close>

lemma verify_unparsed:
  "x509_parse L raw = None \<Longrightarrow> verifyPeerCertificate L now verifyTime raw expectedPeerId = Inl InvalidCertificate"
  by (simp add: verifyPeerCertificate_def)

lemma verify_not_yet_valid:
  "x509_parse L raw = Some c \<Longrightarrow> now < notBefore c \<Longrightarrow>
   verifyPeerCertificate L now verifyTime raw expectedPeerId = Inl CertificateNotYetValid"
  by (simp add: verifyPeerCertificate_def)

lemma verify_expired:
  "x509_parse L raw = Some c \<Longrightarrow> notBefore c \<le> now \<Longrightarrow> notAfter c < now \<Longrightarrow>
   verifyPeerCertificate L now verifyTime raw expectedPeerId = Inl CertificateExpired"
  by (simp add: verifyPeerCertificate_def)

lemma verify_bad_self_signature:
  "x509_parse L raw = Some c \<Longrightarrow> notBefore c \<le> now \<Longrightarrow> now \<le> notAfter c \<Longrightarrow>
   \<not> x509_verify L verifyTime c \<Longrightarrow>
   verifyPeerCertificate L now verifyTime raw expectedPeerId = Inl InvalidSelfSignature"
  by (simp add: verifyPeerCertificate_def)

lemma verify_not_self_signed:
  "x509_parse L raw = Some c \<Longrightarrow> notBefore c \<le> now \<Longrightarrow> now \<le> notAfter c \<Longrightarrow>
   x509_verify L verifyTime c \<Longrightarrow> \<not> x509_isSelfSigned L c \<Longrightarrow>
   verifyPeerCertificate L now verifyTime raw expectedPeerId = Inl NotSelfSigned"
  by (simp add: verifyPeerCertificate_def)

text \<open>The rest of the function, once the certificate's own checks have passed.\<close>

lemma verify_extensions:
  assumes "x509_parse L raw = Some c" "notBefore c \<le> now" "now \<le> notAfter c"
    and "x509_verify L verifyTime c" "x509_isSelfSigned L c"
  shows "verifyPeerCertificate L now verifyTime raw expectedPeerId =
     (case extensions c of
        [] \<Rightarrow> Inl MissingLibp2pExtension
      | ext # others \<Rightarrow>
     if ext_type ext \<noteq> LIBP2P_PUBLIC_KEY_EXTENSION then Inl MissingLibp2pExtension
     else
     (case valueHex_at (fromBER L (ext_value ext)) 0 of
        Inl e \<Rightarrow> Inl e
      | Inr pb0 \<Rightarrow>
     (case toUint8Array pb0 of
        Inl e \<Rightarrow> Inl e
      | Inr keyBytes \<Rightarrow>
     (case PublicKey_decode L keyBytes of
        None \<Rightarrow> Inl MalformedKey
      | Some pb \<Rightarrow>
     (case remoteLibp2pPublicKey L pb of
        Inl e \<Rightarrow> Inl e
      | Inr k \<Rightarrow>
     (case valueHex_at (fromBER L (ext_value ext)) 1 of
        Inl e \<Rightarrow> Inl e
      | Inr sg0 \<Rightarrow>
     (case encodeSignatureData L (publicKey_rawData c) of
        Inl e \<Rightarrow> Inl e
      | Inr payload \<Rightarrow>
     (case toUint8Array sg0 of
        Inl e \<Rightarrow> Inl e
      | Inr sg \<Rightarrow>
     if \<not> key_verify L k payload sg then Inl InvalidCrossSignature
     else (case expectedPeerId of
             None \<Rightarrow> Inr (peerIdFromKeys L (marshalPublicKey L k))
           | Some expected \<Rightarrow>
               if multihash expected = multihash (peerIdFromKeys L (marshalPublicKey L k))
               then Inr (peerIdFromKeys L (marshalPublicKey L k))
               else Inl UnexpectedPeer)))))))))"
  using assms
  by (simp add: verifyPeerCertificate_def Let_def equals_def
      split: list.splits sum.splits option.splits)

text \<open>
  Reading the \<^verbatim>\<open>valueHex\<close> of a component succeeds exactly on a block that has a list of
  components with, at that place, a component that has a \<^verbatim>\<open>valueHex\<close>.
\<close>

lemma valueHex_at_0:
  "(valueHex_at blk 0 = Inr (Some v)) =
     (\<exists>t h k cs rest. blk = Block t h (Some (Block k (Some v) cs # rest)))"
proof (cases blk)
  case (Block t h comps)
  show ?thesis
  proof (cases comps)
    case None
    with Block show ?thesis by (simp add: valueHex_at_def)
  next
    case (Some xs)
    with Block show ?thesis
      by (cases xs) (auto simp: valueHex_at_def split: Asn1.splits)
  qed
qed

lemma valueHex_at_1:
  "(valueHex_at blk 1 = Inr (Some v)) =
     (\<exists>t h x k cs rest. blk = Block t h (Some (x # Block k (Some v) cs # rest)))"
proof (cases blk)
  case (Block t h comps)
  show ?thesis
  proof (cases comps)
    case None
    with Block show ?thesis by (simp add: valueHex_at_def)
  next
    case (Some xs)
    show ?thesis
    proof (cases xs)
      case Nil
      with Block Some show ?thesis by (simp add: valueHex_at_def)
    next
      case (Cons x ys)
      with Block Some show ?thesis
        by (cases ys) (auto simp: valueHex_at_def split: Asn1.splits)
    qed
  qed
qed

lemma valueHex_at_cases:
  "valueHex_at blk i = Inl TypeError \<or> valueHex_at blk i = Inr None \<or>
   (\<exists>v. valueHex_at blk i = Inr (Some v))"
  by (cases "valueHex_at blk i") (auto dest: valueHex_at_error)

subsection \<open>The validity window\<close>

text \<open>
  Claim C5, as amended. For every certificate, \<open>verifyPeerCertificate\<close> fails with
  \<open>CertificateNotYetValid\<close> when the certificate's \<open>notBefore\<close> is strictly after the
  current time, and with \<open>CertificateExpired\<close> when \<open>notBefore\<close> is not after the current
  time and \<open>notAfter\<close> is strictly before it: the not-yet-valid check comes first. Both
  checks come before any signature verification: outside the validity window the result
  is the same whatever the certificate's signature check, its self-issuance check and
  the identity key's signature check would answer, and whatever the clock would read
  when the library verifies the certificate.
\<close>

theorem validity_window_checked_first:
  assumes "x509_parse L raw = Some c"
  shows "(now < notBefore c \<longrightarrow>
            verifyPeerCertificate L now verifyTime raw expectedPeerId = Inl CertificateNotYetValid) \<and>
         (notBefore c \<le> now \<and> notAfter c < now \<longrightarrow>
            verifyPeerCertificate L now verifyTime raw expectedPeerId = Inl CertificateExpired) \<and>
         (now < notBefore c \<or> notAfter c < now \<longrightarrow>
            verifyPeerCertificate
              (L\<lparr>x509_verifySignature := sv, x509_isSelfSigned := ss, key_verify := kv\<rparr>)
              now verifyTime' raw expectedPeerId =
            verifyPeerCertificate L now verifyTime raw expectedPeerId)"
  using assms by (auto simp: verifyPeerCertificate_def)

theorem validity_window_checked_first_witness:
  "verifyPeerCertificate (sample_libs [sample_cert [1] 10 20 []]) 5 5 [1] None
     = Inl CertificateNotYetValid \<and>
   verifyPeerCertificate (sample_libs [sample_cert [1] 10 20 []]) 30 30 [1] None
     = Inl CertificateExpired"
proof -
  have p: "x509_parse (sample_libs [sample_cert [1] 10 20 []]) [1] = Some (sample_cert [1] 10 20 [])"
    by (simp add: sample_libs_def sample_cert_def)
  show ?thesis
    using validity_window_checked_first
        [where now = 5 and verifyTime = 5 and expectedPeerId = None, OF p]
      validity_window_checked_first
        [where now = 30 and verifyTime = 30 and expectedPeerId = None, OF p]
    by (simp add: sample_cert_def)
qed

text \<open>
  The claim as stated, with \<open>CertificateExpired\<close> for every certificate whose
  \<open>notAfter\<close> is before the current time, fails on a certificate whose \<open>notBefore\<close> is
  after its \<open>notAfter\<close>, at a time between the two: the first check answers.
\<close>

theorem expired_counterexample:
  "notAfter (sample_cert [1] 10 5 []) < 7 \<and>
   verifyPeerCertificate (sample_libs [sample_cert [1] 10 5 []]) 7 7 [1] None
     = Inl CertificateNotYetValid"
  by (simp add: verifyPeerCertificate_def sample_libs_def sample_cert_def)

subsection \<open>The libp2p extension\<close>

text \<open>
  Claim C3, as amended. \<open>verifyPeerCertificate\<close> looks for the libp2p extension at the
  first position of the certificate's extension list only: once the checks of the
  certificate itself have passed, it fails with \<open>MissingLibp2pExtension\<close> exactly when
  the list is empty or its first extension has another OID than
  \<open>1.3.6.1.4.1.53594.1.1\<close>.
\<close>

theorem first_extension_only:
  assumes "x509_parse L raw = Some c" "notBefore c \<le> now" "now \<le> notAfter c"
    and "x509_verify L verifyTime c" "x509_isSelfSigned L c"
  shows "(verifyPeerCertificate L now verifyTime raw expectedPeerId = Inl MissingLibp2pExtension) =
         (case extensions c of
            [] \<Rightarrow> True
          | ext # others \<Rightarrow> ext_type ext \<noteq> LIBP2P_PUBLIC_KEY_EXTENSION)"
  unfolding verify_extensions [OF assms]
  by (auto split: list.splits sum.splits option.splits
      dest: valueHex_at_error toUint8Array_error remoteLibp2pPublicKey_error
        encodeSignatureData_error)

theorem first_extension_only_witness:
  "verifyPeerCertificate (sample_libs [sample_cert [1] 0 100 []]) 50 50 [1] None
     = Inl MissingLibp2pExtension"
proof -
  have 1: "x509_parse (sample_libs [sample_cert [1] 0 100 []]) [1] = Some (sample_cert [1] 0 100 [])"
    by code_simp
  have 2: "notBefore (sample_cert [1] 0 100 []) \<le> 50" by code_simp
  have 3: "50 \<le> notAfter (sample_cert [1] 0 100 [])" by code_simp
  have 4: "x509_verify (sample_libs [sample_cert [1] 0 100 []]) 50 (sample_cert [1] 0 100 [])"
    by code_simp
  have 5: "x509_isSelfSigned (sample_libs [sample_cert [1] 0 100 []]) (sample_cert [1] 0 100 [])"
    by code_simp
  have 6: "extensions (sample_cert [1] 0 100 []) = []" by code_simp
  show ?thesis
    using first_extension_only [OF 1 2 3 4 5, of None] by (simp add: 6)
qed

text \<open>
  The claim as stated, a search by OID at any position, fails on a certificate that
  carries the libp2p extension second: the function answers \<open>MissingLibp2pExtension\<close>,
  while it accepts the same extension at the first position.
\<close>

theorem extension_position_counterexample:
  "LIBP2P_PUBLIC_KEY_EXTENSION \<in> set (map ext_type
     [\<lparr>ext_type = ''2.5.29.15'', critical = True, ext_value = [3, 2, 5, 160]\<rparr>,
      sample_extension good_value]) \<and>
   verifyPeerCertificate
     (sample_libs [sample_cert [1] 0 100
        [\<lparr>ext_type = ''2.5.29.15'', critical = True, ext_value = [3, 2, 5, 160]\<rparr>,
         sample_extension good_value]]) 50 50 [1] None
     = Inl MissingLibp2pExtension \<and>
   verifyPeerCertificate
     (sample_libs [sample_cert [1] 0 100 [sample_extension good_value]]) 50 50 [1] None
     = Inr (sample_peerIdFromKeys [1, 7])"
  by code_simp

text \<open>
  Claim C4, as amended. \<open>verifyPeerCertificate\<close> does not check that the extension value
  is a sequence of two octet strings, and has no error of its own for a malformed
  value. It reads the \<^verbatim>\<open>valueHex\<close> of components 0 and 1 of the decoded block. When
  the block has no list of components, or its component 0 is missing or has no
  \<^verbatim>\<open>valueHex\<close>, the function fails with the runtime's \<open>TypeError\<close>. When components 0
  and 1 are not both there with a \<^verbatim>\<open>valueHex\<close>, it fails with \<open>TypeError\<close>, or with the
  key error raised for component 0 before component 1 is read, or with the error of
  the payload encoder. When both are there with a \<^verbatim>\<open>valueHex\<close>, the tags of the block
  and of its components, what else the block and the components hold and any further
  component are ignored: the result is the one for the sequence of two octet strings
  with the same contents.
\<close>

theorem extension_value_unchecked:
  assumes "x509_parse L raw = Some c"
    and "notBefore c \<le> now" and "now \<le> notAfter c"
    and "x509_verify L verifyTime c" and "x509_isSelfSigned L c"
    and "extensions c = ext # others"
    and "ext_type ext = LIBP2P_PUBLIC_KEY_EXTENSION"
  shows "((\<nexists>t h k v cs rest.
              fromBER L (ext_value ext) = Block t h (Some (Block k (Some v) cs # rest))) \<longrightarrow>
            verifyPeerCertificate L now verifyTime raw expectedPeerId = Inl TypeError) \<and>
         ((\<nexists>t h k v cs k' v' cs' rest.
              fromBER L (ext_value ext) =
                Block t h (Some (Block k (Some v) cs # Block k' (Some v') cs' # rest))) \<longrightarrow>
            verifyPeerCertificate L now verifyTime raw expectedPeerId \<in>
              {Inl TypeError, Inl MalformedKey, Inl UnsupportedKeyType, Inl InvalidCertificate}) \<and>
         (fromBER L (ext_value ext) =
            Block t h (Some (Block k (Some v) cs # Block k' (Some v') cs' # rest)) \<longrightarrow>
            verifyPeerCertificate L now verifyTime raw expectedPeerId =
            verifyPeerCertificate (L\<lparr>fromBER := \<lambda>b. Sequence [OctetString v, OctetString v']\<rparr>)
              now verifyTime raw expectedPeerId)"
proof (intro conjI impI)
  let ?blk = "fromBER L (ext_value ext)"
  note step = verify_extensions [OF assms(1-5)]
  assume "\<nexists>t h k v cs rest. ?blk = Block t h (Some (Block k (Some v) cs # rest))"
  then have "valueHex_at ?blk 0 = Inl TypeError \<or> valueHex_at ?blk 0 = Inr None"
    using valueHex_at_cases [of ?blk 0] by (auto simp: valueHex_at_0)
  then show "verifyPeerCertificate L now verifyTime raw expectedPeerId = Inl TypeError"
    using assms(6,7) by (auto simp: step toUint8Array_def)
next
  let ?blk = "fromBER L (ext_value ext)"
  note step = verify_extensions [OF assms(1-5)]
  assume n: "\<nexists>t h k v cs k' v' cs' rest.
    ?blk = Block t h (Some (Block k (Some v) cs # Block k' (Some v') cs' # rest))"
  have "(\<nexists>a. valueHex_at ?blk 0 = Inr (Some a)) \<or> (\<nexists>b. valueHex_at ?blk 1 = Inr (Some b))"
  proof (rule ccontr)
    assume "\<not> ?thesis"
    then obtain a b where a: "valueHex_at ?blk 0 = Inr (Some a)"
      and b: "valueHex_at ?blk 1 = Inr (Some b)"
      by auto
    from a obtain t h k cs rest where 0: "?blk = Block t h (Some (Block k (Some a) cs # rest))"
      unfolding valueHex_at_0 by blast
    from b obtain t' h' x k' cs' rest' where
      1: "?blk = Block t' h' (Some (x # Block k' (Some b) cs' # rest'))"
      unfolding valueHex_at_1 by blast
    from 0 1 have "?blk = Block t h (Some (Block k (Some a) cs # Block k' (Some b) cs' # rest'))"
      by simp
    then show False
      using n by blast
  qed
  then have "valueHex_at ?blk 0 = Inl TypeError \<or> valueHex_at ?blk 0 = Inr None \<or>
             valueHex_at ?blk 1 = Inl TypeError \<or> valueHex_at ?blk 1 = Inr None"
    using valueHex_at_cases [of ?blk 0] valueHex_at_cases [of ?blk 1] by auto
  then show "verifyPeerCertificate L now verifyTime raw expectedPeerId \<in>
              {Inl TypeError, Inl MalformedKey, Inl UnsupportedKeyType, Inl InvalidCertificate}"
    using assms(6,7)
    by (auto simp: step toUint8Array_def split: sum.splits option.splits
        dest: remoteLibp2pPublicKey_error valueHex_at_error encodeSignatureData_error)
next
  let ?blk = "fromBER L (ext_value ext)"
  note step = verify_extensions [OF assms(1-5)]
  assume b: "?blk = Block t h (Some (Block k (Some v) cs # Block k' (Some v') cs' # rest))"
  let ?L' = "L\<lparr>fromBER := \<lambda>b. Sequence [OctetString v, OctetString v']\<rparr>"
  have a4: "x509_verify ?L' verifyTime c"
    using assms(4) by (simp add: x509_verify_def)
  have step': "verifyPeerCertificate ?L' now verifyTime raw expectedPeerId =
     (case extensions c of
        [] \<Rightarrow> Inl MissingLibp2pExtension
      | ext # others \<Rightarrow>
     if ext_type ext \<noteq> LIBP2P_PUBLIC_KEY_EXTENSION then Inl MissingLibp2pExtension
     else
     (case valueHex_at (fromBER ?L' (ext_value ext)) 0 of
        Inl e \<Rightarrow> Inl e
      | Inr pb0 \<Rightarrow>
     (case toUint8Array pb0 of
        Inl e \<Rightarrow> Inl e
      | Inr keyBytes \<Rightarrow>
     (case PublicKey_decode ?L' keyBytes of
        None \<Rightarrow> Inl MalformedKey
      | Some pb \<Rightarrow>
     (case remoteLibp2pPublicKey ?L' pb of
        Inl e \<Rightarrow> Inl e
      | Inr k \<Rightarrow>
     (case valueHex_at (fromBER ?L' (ext_value ext)) 1 of
        Inl e \<Rightarrow> Inl e
      | Inr sg0 \<Rightarrow>
     (case encodeSignatureData ?L' (publicKey_rawData c) of
        Inl e \<Rightarrow> Inl e
      | Inr payload \<Rightarrow>
     (case toUint8Array sg0 of
        Inl e \<Rightarrow> Inl e
      | Inr sg \<Rightarrow>
     if \<not> key_verify ?L' k payload sg then Inl InvalidCrossSignature
     else (case expectedPeerId of
             None \<Rightarrow> Inr (peerIdFromKeys ?L' (marshalPublicKey ?L' k))
           | Some expected \<Rightarrow>
               if multihash expected = multihash (peerIdFromKeys ?L' (marshalPublicKey ?L' k))
               then Inr (peerIdFromKeys ?L' (marshalPublicKey ?L' k))
               else Inl UnexpectedPeer)))))))))"
    using assms(1-3,5) a4 by (intro verify_extensions) simp_all
  have r: "remoteLibp2pPublicKey ?L' pb = remoteLibp2pPublicKey L pb" for pb
    by (simp add: remoteLibp2pPublicKey_def Let_def)
  have e: "encodeSignatureData ?L' d = encodeSignatureData L d" for d
    by (simp add: encodeSignatureData_def split: option.splits)
  have c0: "valueHex_at ?blk 0 = Inr (Some v)" and c1: "valueHex_at ?blk 1 = Inr (Some v')"
    using b by (simp_all add: valueHex_at_def)
  have s0: "valueHex_at (Sequence [OctetString v, OctetString v']) 0 = Inr (Some v)"
    and s1: "valueHex_at (Sequence [OctetString v, OctetString v']) 1 = Inr (Some v')"
    by (simp_all add: valueHex_at_def Sequence_def OctetString_def)
  show "verifyPeerCertificate L now verifyTime raw expectedPeerId =
          verifyPeerCertificate ?L' now verifyTime raw expectedPeerId"
    using assms(6,7)
    by (simp add: step step' c0 c1 [simplified] s0 s1 [simplified] r e toUint8Array_def
        cong: if_cong option.case_cong sum.case_cong)
qed

theorem extension_value_unchecked_witness:
  "verifyPeerCertificate
     (sample_libs [sample_cert [1] 0 100 [sample_extension (OctetString [1, 7])]]) 50 50 [1] None
   = Inl TypeError"
proof -
  let ?e = "sample_extension (OctetString [1, 7])"
  let ?c = "sample_cert [1] 0 100 [?e]"
  let ?L = "sample_libs [?c]"
  have 1: "x509_parse ?L [1] = Some ?c" by code_simp
  have 2: "notBefore ?c \<le> 50" by code_simp
  have 3: "50 \<le> notAfter ?c" by code_simp
  have 4: "x509_verify ?L 50 ?c" by code_simp
  have 5: "x509_isSelfSigned ?L ?c" by code_simp
  have 6: "extensions ?c = ?e # []" by code_simp
  have 7: "ext_type ?e = LIBP2P_PUBLIC_KEY_EXTENSION" by code_simp
  have 8: "fromBER ?L (ext_value ?e) = Block 4 (Some [1, 7]) (Some [])" by code_simp
  have 9: "\<nexists>t h k v cs rest.
      fromBER ?L (ext_value ?e) = Block t h (Some (Block k (Some v) cs # rest))"
    by (simp add: 8)
  show ?thesis
    using extension_value_unchecked [OF 1 2 3 4 5 6 7, of None] 9 by blast
qed

text \<open>
  The claim as stated fails on a value that is a sequence of three octet strings, which
  is accepted.
\<close>

theorem three_components_counterexample:
  "sample_fromBER (ext_value (sample_extension three_value)) =
     Block 16 None
       (Some [Block 4 (Some [1, 7]) (Some []),
              Block 4 (Some ([1, 7] @ sample_payload)) (Some []),
              Block 4 (Some [0]) (Some [])]) \<and>
   verifyPeerCertificate
     (sample_libs [sample_cert [1] 0 100 [sample_extension three_value]]) 50 50 [1]
     (Some sample_peer) = Inr (sample_peerIdFromKeys [1, 7])"
  by code_simp

subsection \<open>The signature of the identity key\<close>

text \<open>
  A peer id is returned only when the certificate's own signature has verified and the
  identity key has verified the extracted signature over the payload.
\<close>

lemma success_means_verified:
  assumes "verifyPeerCertificate L now verifyTime raw expectedPeerId = Inr remotePeerId"
  shows "\<exists>c ext others keyBytes pb k sg payload.
           x509_parse L raw = Some c \<and> x509_verify L verifyTime c \<and> x509_isSelfSigned L c \<and>
           extensions c = ext # others \<and>
           valueHex_at (fromBER L (ext_value ext)) 0 = Inr (Some keyBytes) \<and>
           PublicKey_decode L keyBytes = Some pb \<and>
           remoteLibp2pPublicKey L pb = Inr k \<and>
           valueHex_at (fromBER L (ext_value ext)) 1 = Inr (Some sg) \<and>
           encodeSignatureData L (publicKey_rawData c) = Inr payload \<and>
           key_verify L k payload sg"
proof -
  from assms obtain c where c: "x509_parse L raw = Some c"
    by (auto simp: verifyPeerCertificate_def split: option.splits)
  from assms c have w: "notBefore c \<le> now" "now \<le> notAfter c"
    and v: "x509_verify L verifyTime c" "x509_isSelfSigned L c"
    by (auto simp: verifyPeerCertificate_def split: if_splits)
  note step = verify_extensions [OF c w v, of expectedPeerId]
  from assms obtain ext others where e: "extensions c = ext # others"
    unfolding step by (auto split: list.splits)
  from assms e obtain keyBytes pb k sg payload where
    "valueHex_at (fromBER L (ext_value ext)) 0 = Inr (Some keyBytes)"
    "PublicKey_decode L keyBytes = Some pb"
    "remoteLibp2pPublicKey L pb = Inr k"
    "valueHex_at (fromBER L (ext_value ext)) 1 = Inr (Some sg)"
    "encodeSignatureData L (publicKey_rawData c) = Inr payload"
    "key_verify L k payload sg"
    unfolding step
    by (auto simp: toUint8Array_Inr split: sum.splits option.splits if_splits)
  with c v e show ?thesis by blast
qed

text \<open>
  Claim C2. When the steps before it have passed (the certificate parses, is within
  its validity window, verifies and is self-signed, its first extension is the libp2p
  extension, components 0 and 1 of its value are read, the key decodes and is built, the
  payload is encoded) and the identity key's \<open>verify\<close> returns false for the extracted
  signature over the payload, \<open>verifyPeerCertificate\<close> fails with
  \<open>InvalidCrossSignature\<close>, whatever peer is expected: a false result is not treated as
  success. The function has no handler for exceptions, and by \<open>success_means_verified\<close>
  it returns a peer id only when both signature checks have returned true.
\<close>

theorem cross_signature_checked:
  assumes "x509_parse L raw = Some c"
    and "notBefore c \<le> now" and "now \<le> notAfter c"
    and "x509_verify L verifyTime c" and "x509_isSelfSigned L c"
    and "extensions c = ext # others"
    and "ext_type ext = LIBP2P_PUBLIC_KEY_EXTENSION"
    and "valueHex_at (fromBER L (ext_value ext)) 0 = Inr (Some keyBytes)"
    and "PublicKey_decode L keyBytes = Some pb"
    and "remoteLibp2pPublicKey L pb = Inr k"
    and "valueHex_at (fromBER L (ext_value ext)) 1 = Inr (Some sg)"
    and "encodeSignatureData L (publicKey_rawData c) = Inr payload"
    and "\<not> key_verify L k payload sg"
  shows "verifyPeerCertificate L now verifyTime raw expectedPeerId = Inl InvalidCrossSignature"
  using assms(6-13) by (simp add: verify_extensions [OF assms(1-5)] toUint8Array_def)

theorem cross_signature_checked_witness:
  "verifyPeerCertificate
     (sample_libs [sample_cert [1] 0 100 [sample_extension forged_value]]) 50 50 [1]
     (Some sample_peer) = Inl InvalidCrossSignature"
proof -
  let ?c = "sample_cert [1] 0 100 [sample_extension forged_value]"
  let ?L = "sample_libs [?c]"
  have 1: "x509_parse ?L [1] = Some ?c" by code_simp
  have 2: "notBefore ?c \<le> 50" by code_simp
  have 3: "50 \<le> notAfter ?c" by code_simp
  have 4: "x509_verify ?L 50 ?c" by code_simp
  have 5: "x509_isSelfSigned ?L ?c" by code_simp
  have 6: "extensions ?c = sample_extension forged_value # []" by code_simp
  have 7: "ext_type (sample_extension forged_value) = LIBP2P_PUBLIC_KEY_EXTENSION" by code_simp
  have 8: "valueHex_at (fromBER ?L (ext_value (sample_extension forged_value))) 0
             = Inr (Some [1, 7])"
    by code_simp
  have 9: "PublicKey_decode ?L [1, 7] = Some \<lparr>pb_type = Some RSA, pb_data = Some [7]\<rparr>"
    by code_simp
  have 10: "remoteLibp2pPublicKey ?L \<lparr>pb_type = Some RSA, pb_data = Some [7]\<rparr> = Inr [1, 7]"
    by code_simp
  have 11: "valueHex_at (fromBER ?L (ext_value (sample_extension forged_value))) 1
              = Inr (Some [0, 0])"
    by code_simp
  have 12: "encodeSignatureData ?L (publicKey_rawData ?c) = Inr sample_payload" by code_simp
  have 13: "\<not> key_verify ?L [1, 7] sample_payload [0, 0]" by code_simp
  show ?thesis
    by (rule cross_signature_checked [OF 1 2 3 4 5 6 7 8 9 10 11 12 13])
qed

subsection \<open>The expected peer\<close>

text \<open>
  The comparison with the expected peer is the last step: a failure of another step is
  the same failure with and without an expected peer, and without an expected peer
  \<open>UnexpectedPeer\<close> is never the result, whatever the certificate.
\<close>

lemma expected_peer_compared_last:
  "verifyPeerCertificate L now verifyTime raw (Some expected) =
     (case verifyPeerCertificate L now verifyTime raw None of
        Inl e \<Rightarrow> Inl e
      | Inr remotePeerId \<Rightarrow>
          if multihash expected = multihash remotePeerId then Inr remotePeerId
          else Inl UnexpectedPeer)"
  by (simp add: verifyPeerCertificate_def Let_def equals_def
      split: list.splits sum.splits option.splits)

lemma no_expected_peer_no_mismatch:
  "verifyPeerCertificate L now verifyTime raw None \<noteq> Inl UnexpectedPeer"
  by (auto simp: verifyPeerCertificate_def Let_def
      split: list.splits sum.splits option.splits if_splits
      dest: valueHex_at_error toUint8Array_error remoteLibp2pPublicKey_error
        encodeSignatureData_error)

text \<open>
  Claim C8. Take a certificate that passes every other step of the verification: it
  parses, the current time is within its validity window, its signature verifies and
  it is self-signed, its first extension is the libp2p extension, components 0 and 1 of
  the extension value are read, the key decodes and the identity key \<open>k\<close> is built from
  it, the payload is encoded, and \<open>k\<close> verifies the extracted signature over the
  payload. The derived peer id is the one that \<open>peerIdFromKeys\<close> makes from the
  marshalled \<open>k\<close>. With an expected peer whose multihash differs from the one of the
  derived peer id, \<open>verifyPeerCertificate\<close> fails with \<open>UnexpectedPeer\<close>; with an expected
  peer of the same multihash, and with no expected peer, it returns the derived peer
  id.
\<close>

theorem expected_peer_checked_last:
  assumes "x509_parse L raw = Some c"
    and "notBefore c \<le> now" and "now \<le> notAfter c"
    and "x509_verify L verifyTime c" and "x509_isSelfSigned L c"
    and "extensions c = ext # others"
    and "ext_type ext = LIBP2P_PUBLIC_KEY_EXTENSION"
    and "valueHex_at (fromBER L (ext_value ext)) 0 = Inr (Some keyBytes)"
    and "PublicKey_decode L keyBytes = Some pb"
    and "remoteLibp2pPublicKey L pb = Inr k"
    and "valueHex_at (fromBER L (ext_value ext)) 1 = Inr (Some sg)"
    and "encodeSignatureData L (publicKey_rawData c) = Inr payload"
    and "key_verify L k payload sg"
  shows "(multihash expected \<noteq> multihash (peerIdFromKeys L (marshalPublicKey L k)) \<longrightarrow>
            verifyPeerCertificate L now verifyTime raw (Some expected) = Inl UnexpectedPeer) \<and>
         (multihash expected = multihash (peerIdFromKeys L (marshalPublicKey L k)) \<longrightarrow>
            verifyPeerCertificate L now verifyTime raw (Some expected) =
              Inr (peerIdFromKeys L (marshalPublicKey L k))) \<and>
         verifyPeerCertificate L now verifyTime raw None =
           Inr (peerIdFromKeys L (marshalPublicKey L k))"
  using assms(6-13) by (simp add: verify_extensions [OF assms(1-5)] toUint8Array_def)

theorem expected_peer_checked_last_witness:
  "verifyPeerCertificate
     (sample_libs [sample_cert [1] 0 100 [sample_extension good_value]]) 50 50 [1]
     (Some (sample_peerIdFromKeys [1, 8])) = Inl UnexpectedPeer \<and>
   verifyPeerCertificate
     (sample_libs [sample_cert [1] 0 100 [sample_extension good_value]]) 50 50 [1]
     (Some sample_peer) = Inr (sample_peerIdFromKeys [1, 7]) \<and>
   verifyPeerCertificate
     (sample_libs [sample_cert [1] 0 100 [sample_extension good_value]]) 50 50 [1]
     None = Inr (sample_peerIdFromKeys [1, 7])"
proof -
  let ?c = "sample_cert [1] 0 100 [sample_extension good_value]"
  let ?L = "sample_libs [?c]"
  have 1: "x509_parse ?L [1] = Some ?c" by code_simp
  have 2: "notBefore ?c \<le> 50" by code_simp
  have 3: "50 \<le> notAfter ?c" by code_simp
  have 4: "x509_verify ?L 50 ?c" by code_simp
  have 5: "x509_isSelfSigned ?L ?c" by code_simp
  have 6: "extensions ?c = sample_extension good_value # []" by code_simp
  have 7: "ext_type (sample_extension good_value) = LIBP2P_PUBLIC_KEY_EXTENSION" by code_simp
  have 8: "valueHex_at (fromBER ?L (ext_value (sample_extension good_value))) 0
             = Inr (Some [1, 7])"
    by code_simp
  have 9: "PublicKey_decode ?L [1, 7] = Some \<lparr>pb_type = Some RSA, pb_data = Some [7]\<rparr>"
    by code_simp
  have 10: "remoteLibp2pPublicKey ?L \<lparr>pb_type = Some RSA, pb_data = Some [7]\<rparr> = Inr [1, 7]"
    by code_simp
  have 11: "valueHex_at (fromBER ?L (ext_value (sample_extension good_value))) 1
              = Inr (Some ([1, 7] @ sample_payload))"
    by code_simp
  have 12: "encodeSignatureData ?L (publicKey_rawData ?c) = Inr sample_payload" by code_simp
  have 13: "key_verify ?L [1, 7] sample_payload ([1, 7] @ sample_payload)" by code_simp
  have d: "multihash (sample_peerIdFromKeys [1, 8]) \<noteq>
           multihash (peerIdFromKeys ?L (marshalPublicKey ?L [1, 7]))"
    by code_simp
  have s: "multihash sample_peer = multihash (peerIdFromKeys ?L (marshalPublicKey ?L [1, 7]))"
    by code_simp
  have p: "peerIdFromKeys ?L (marshalPublicKey ?L [1, 7]) = sample_peerIdFromKeys [1, 7]"
    by code_simp
  note t = expected_peer_checked_last [OF 1 2 3 4 5 6 7 8 9 10 11 12 13]
  show ?thesis
    using t [where expected = "sample_peerIdFromKeys [1, 8]", THEN conjunct1, THEN mp, OF d]
      t [where expected = sample_peer, THEN conjunct2, THEN conjunct1, THEN mp, OF s]
      t [where expected = sample_peer, THEN conjunct2, THEN conjunct2]
    unfolding p by (intro conjI)
qed

section \<open>The signature payload\<close>

text \<open>
  Claim C7. The result of \<open>encodeSignatureData\<close> is a function of its input (and of the
  SubjectPublicKeyInfo parser and serializer): equal inputs give equal outputs. When
  the input parses, the output is the 21 bytes of the ASCII text
  \<open>libp2p-tls-handshake:\<close>, with no NUL after them, followed by the serialization of the
  parsed SubjectPublicKeyInfo.
\<close>

theorem signature_payload:
  assumes "spki_parse L certPublicKey = Some keyInfo"
  shows "encodeSignatureData L certPublicKey =
           Inr ([108, 105, 98, 112, 50, 112, 45, 116, 108, 115, 45,
                 104, 97, 110, 100, 115, 104, 97, 107, 101, 58] @ spki_serialize L keyInfo) \<and>
         length (uint8ArrayFromString CERT_PREFIX) = 21 \<and>
         (certPublicKey' = certPublicKey \<longrightarrow>
            encodeSignatureData L certPublicKey' = encodeSignatureData L certPublicKey)"
  using assms
  by (simp add: encodeSignatureData_def uint8ArrayFromString_def CERT_PREFIX_def)

theorem signature_payload_witness:
  "encodeSignatureData (sample_libs []) [9] =
     Inr [108, 105, 98, 112, 50, 112, 45, 116, 108, 115, 45,
          104, 97, 110, 100, 115, 104, 97, 107, 101, 58, 9]"
proof -
  have p: "spki_parse (sample_libs []) [9] = Some [9]" by code_simp
  have s: "spki_serialize (sample_libs []) [9] = [9]" by code_simp
  show ?thesis
    using signature_payload [OF p, of "[9]"] by (simp add: s)
qed

section \<open>The serial number\<close>

text \<open>Evaluating the digits of a number, and one turn of the loop.\<close>

lemma decimal_small: "n < 10 \<Longrightarrow> decimal n = [digit_char n]"
  by (simp add: decimal.simps)

lemma decimal_large: "10 \<le> n \<Longrightarrow> decimal n = decimal (n div 10) @ [digit_char (n mod 10)]"
  by (subst decimal.simps) simp

lemmas decimal_eval = toFixed0_def startsWith_def decimal_small decimal_large digit_char_def

lemma generateSerialNumber_accept:
  "\<not> startsWith (toFixed0 (random i * 2 ^ 52)) ''80'' \<Longrightarrow>
   generateSerialNumber random i = Some (toFixed0 (random i * 2 ^ 52))"
  by (subst generateSerialNumber.simps) (simp add: Let_def)

lemma generateSerialNumber_retry:
  "startsWith (toFixed0 (random i * 2 ^ 52)) ''80'' \<Longrightarrow>
   generateSerialNumber random i = generateSerialNumber random (Suc i)"
  by (subst generateSerialNumber.simps) (simp add: Let_def)

lemma generateSerialNumber_returns:
  assumes "i \<le> j" and "\<not> startsWith (toFixed0 (random j * 2 ^ 52)) ''80''"
  shows "\<exists>k. i \<le> k \<and> k \<le> j \<and> \<not> startsWith (toFixed0 (random k * 2 ^ 52)) ''80'' \<and>
             generateSerialNumber random i = Some (toFixed0 (random k * 2 ^ 52))"
  using assms(1)
proof (induction rule: inc_induct)
  case base
  show ?case
    using assms(2) generateSerialNumber_accept [of random j] by auto
next
  case (step n)
  show ?case
  proof (cases "startsWith (toFixed0 (random n * 2 ^ 52)) ''80''")
    case True
    from step.IH obtain k where "Suc n \<le> k" "k \<le> j"
      "\<not> startsWith (toFixed0 (random k * 2 ^ 52)) ''80''"
      "generateSerialNumber random (Suc n) = Some (toFixed0 (random k * 2 ^ 52))"
      by blast
    then show ?thesis
      using generateSerialNumber_retry [of random n, OF True] by (intro exI [of _ k]) simp
  next
    case False
    then show ?thesis
      using generateSerialNumber_accept [of random n, OF False] step.hyps by (intro exI [of _ n]) simp
  qed
qed

lemma sample_below:
  fixes x :: real
  assumes "0 \<le> x" and "x < 1"
  shows "nat \<lfloor>x * 2 ^ 52 + 1 / 2\<rfloor> \<le> 2 ^ 52"
proof -
  have "x * 2 ^ 52 + 1 / 2 < of_int (2 ^ 52 + 1)"
    using assms by simp
  then have "\<lfloor>x * 2 ^ 52 + 1 / 2\<rfloor> < 2 ^ 52 + 1"
    by (simp only: floor_less_iff)
  then have "\<lfloor>x * 2 ^ 52 + 1 / 2\<rfloor> \<le> 2 ^ 52"
    by linarith
  then show ?thesis
    by (simp add: nat_le_iff)
qed

text \<open>
  Claim C6. For every run of the serial number loop whose random samples, each in
  \<open>[0, 1)\<close>, contain from the start of the run on at least one sample whose decimal
  rendering does not begin with \<open>80\<close>, the loop returns, and what it returns is the
  decimal string of a natural number at most \<open>2 ^ 53\<close> that does not begin with \<open>80\<close>.
\<close>

theorem serial_number_policy:
  assumes "\<forall>j. 0 \<le> random j \<and> random j < 1"
    and "\<exists>j\<ge>i. \<not> startsWith (toFixed0 (random j * 2 ^ 52)) ''80''"
  shows "\<exists>n. generateSerialNumber random i = Some (decimal n) \<and> n \<le> 2 ^ 53 \<and>
             \<not> startsWith (decimal n) ''80''"
proof -
  from assms(2) obtain j where "i \<le> j" "\<not> startsWith (toFixed0 (random j * 2 ^ 52)) ''80''"
    by blast
  then obtain k where k: "\<not> startsWith (toFixed0 (random k * 2 ^ 52)) ''80''"
    "generateSerialNumber random i = Some (toFixed0 (random k * 2 ^ 52))"
    using generateSerialNumber_returns by blast
  let ?n = "nat \<lfloor>random k * 2 ^ 52 + 1 / 2\<rfloor>"
  have "?n \<le> 2 ^ 52"
    using assms(1) by (intro sample_below) auto
  also have "(2::nat) ^ 52 \<le> 2 ^ 53" by simp
  finally have "?n \<le> 2 ^ 53" .
  then show ?thesis
    using k by (intro exI [of _ ?n]) (simp add: toFixed0_def)
qed

theorem serial_number_policy_witness:
  "\<exists>n. generateSerialNumber (\<lambda>j. if j = 0 then 80 / 2 ^ 52 else 1 / 2) 0 = Some (decimal n) \<and>
       n \<le> 2 ^ 53 \<and> \<not> startsWith (decimal n) ''80''"
proof -
  let ?r = "\<lambda>j::nat. if j = 0 then 80 / 2 ^ 52 else (1 / 2 :: real)"
  have 1: "\<forall>j. 0 \<le> ?r j \<and> ?r j < 1" by simp
  have "\<not> startsWith (toFixed0 (?r 1 * 2 ^ 52)) ''80''" by (simp add: decimal_eval)
  then have 2: "\<exists>j\<ge>0. \<not> startsWith (toFixed0 (?r j * 2 ^ 52)) ''80''" by blast
  show ?thesis
    by (rule serial_number_policy [OF 1 2])
qed

section \<open>Backpressure in the sink of the stream bridge\<close>

lemma sink_run_append:
  "sink_run s (xs @ ys) =
     (case sink_run s xs of
        None \<Rightarrow> None
      | Some (s', calls) \<Rightarrow>
          (case sink_run s' ys of
             None \<Rightarrow> None
           | Some (s'', calls') \<Rightarrow> Some (s'', calls @ calls')))"
  by (induction xs arbitrary: s) (auto split: option.splits)

lemma next_needs_pulling:
  "sink_step s (Next buf sendMore) = Some r \<Longrightarrow> s = Pulling"
  by (cases s) auto

lemma failed_stays:
  "sink_run (Failed err) xs = Some (s, calls) \<Longrightarrow> s = Failed err \<and> calls = []"
proof (induction xs arbitrary: s calls)
  case (Cons x xs)
  then show ?case
    by (cases x) (auto split: option.splits)
qed simp

lemma waiting_without_drain:
  "sink_run Waiting xs = Some (s, calls) \<Longrightarrow> Emit Drain \<notin> set xs \<Longrightarrow>
   (s = Waiting \<and> calls = [] \<and> (\<forall>x\<in>set xs. \<exists>ev. x = Emit ev \<and> waitForBackpressure ev = None)) \<or>
   (\<exists>err. s = Failed err \<and> calls = [Destroy err])"
proof (induction xs arbitrary: s calls)
  case Nil
  then show ?case by simp
next
  case (Cons x xs)
  from Cons.prems(1) obtain ev where x: "x = Emit ev"
    by (cases x) auto
  show ?case
  proof (cases "waitForBackpressure ev")
    case None
    then have "sink_run Waiting xs = Some (s, calls)"
      using Cons.prems(1) x by (auto split: option.splits)
    then show ?thesis
      using Cons.IH [of s calls] Cons.prems(2) None x by auto
  next
    case (Some r)
    show ?thesis
    proof (cases r)
      case (Inl err)
      then have "sink_run (Failed err) xs \<noteq> None" and
        "\<And>s' c'. sink_run (Failed err) xs = Some (s', c') \<Longrightarrow> s = s' \<and> calls = Destroy err # c'"
        using Cons.prems(1) x Some by (auto split: option.splits)
      then show ?thesis
        using failed_stays [of err xs] by fastforce
    next
      case (Inr u)
      then have "ev = Drain"
        using Some by (cases ev) auto
      then show ?thesis
        using Cons.prems(2) x by simp
    qed
  qed
qed

lemma waiting_rejects:
  assumes "sink_run Waiting xs = Some (s, calls)" and "Emit Drain \<notin> set xs"
    and "Emit End \<in> set xs \<or> (\<exists>e. Emit (Error e) \<in> set xs)"
  shows "\<exists>err. s = Failed err \<and> calls = [Destroy err]"
proof -
  from assms(3) obtain ev where "Emit ev \<in> set xs" "waitForBackpressure ev \<noteq> None"
    by auto
  then show ?thesis
    using waiting_without_drain [OF assms(1,2)] by auto
qed

lemma run_up_to_false_write:
  assumes "sink_run s (pre @ Next buf False # rest) = Some (s', calls)"
  shows "\<exists>c1 c2. sink_run s pre = Some (Pulling, c1) \<and> sink_run Waiting rest = Some (s', c2) \<and>
           calls = c1 @ Write buf # c2"
proof -
  from assms obtain s1 c1 where 1: "sink_run s pre = Some (s1, c1)"
    by (auto simp: sink_run_append split: option.splits)
  with assms obtain r where 2: "sink_run s1 (Next buf False # rest) = Some r" and
    3: "s' = fst r" "calls = c1 @ snd r"
    by (auto simp: sink_run_append split: option.splits)
  from 2 have p: "s1 = Pulling"
    by (cases s1) auto
  with 2 obtain c2 where "sink_run Waiting rest = Some (fst r, c2)" "snd r = Write buf # c2"
    by (auto split: option.splits)
  with 1 3 p show ?thesis by auto
qed

text \<open>
  Claim C9, as amended. In the sink of \<open>streamToIt\<close>, after a write to the stream has
  returned false, no further write occurs before a \<open>drain\<close> event fires; and an \<open>end\<close>
  or \<open>error\<close> event arriving before the drain rejects the pending backpressure wait: the
  sink destroys the stream and fails with that error. In a run of the sink, the writes
  are the \<open>Next\<close> stimuli, each with what \<^verbatim>\<open>stream.write\<close> returned.
\<close>

theorem backpressure_honoured:
  "(sink_run Pulling (pre @ Next buf False # mid @ Next buf' sendMore # post) = Some r \<longrightarrow>
      Emit Drain \<in> set mid) \<and>
   (sink_run Pulling (pre @ Next buf False # mid) = Some (s, calls) \<and>
    Emit Drain \<notin> set mid \<and> (Emit End \<in> set mid \<or> (\<exists>e. Emit (Error e) \<in> set mid)) \<longrightarrow>
      (\<exists>err. s = Failed err \<and> Destroy err \<in> set calls))"
proof (intro conjI impI)
  assume a: "sink_run Pulling (pre @ Next buf False # mid @ Next buf' sendMore # post) = Some r"
  show "Emit Drain \<in> set mid"
  proof (rule ccontr)
    assume n: "Emit Drain \<notin> set mid"
    from a obtain c2 where "sink_run Waiting (mid @ Next buf' sendMore # post) = Some (fst r, c2)"
      using run_up_to_false_write [of Pulling pre buf _ "fst r" "snd r"] by auto
    then obtain s1 c3 r' where 1: "sink_run Waiting mid = Some (s1, c3)"
      and 2: "sink_run s1 (Next buf' sendMore # post) = Some r'"
      by (auto simp: sink_run_append split: option.splits)
    from waiting_without_drain [OF 1 n] have "s1 \<noteq> Pulling" by auto
    moreover from 2 have "s1 = Pulling"
      by (cases s1) auto
    ultimately show False by simp
  qed
next
  assume a: "sink_run Pulling (pre @ Next buf False # mid) = Some (s, calls) \<and>
    Emit Drain \<notin> set mid \<and> (Emit End \<in> set mid \<or> (\<exists>e. Emit (Error e) \<in> set mid))"
  then obtain c1 c2 where 1: "sink_run Waiting mid = Some (s, c2)" and 2: "calls = c1 @ Write buf # c2"
    using run_up_to_false_write [of Pulling pre buf mid s calls] by auto
  from a have "\<exists>err. s = Failed err \<and> c2 = [Destroy err]"
    by (intro waiting_rejects [OF 1]) auto
  with 2 show "\<exists>err. s = Failed err \<and> Destroy err \<in> set calls"
    by auto
qed

theorem backpressure_honoured_witness:
  "Emit Drain \<in> set [Emit Close, Emit Drain] \<and>
   (\<exists>err. Failed ''Stream ended'' = Failed err \<and>
          Destroy err \<in> set [Write [1], Destroy ''Stream ended''])"
proof -
  have 1: "sink_run Pulling ([] @ Next [1] False # [Emit Close, Emit Drain] @ Next [2] True # [Done])
             = Some (Returned, [Write [1], Write [2], EndStream])"
    by simp
  have 2: "sink_run Pulling ([] @ Next [1] False # [Emit (Data [0]), Emit End])
             = Some (Failed ''Stream ended'', [Write [1], Destroy ''Stream ended'']) \<and>
           Emit Drain \<notin> set [Emit (Data [0]), Emit End] \<and>
           (Emit End \<in> set [Emit (Data [0]), Emit End] \<or>
            (\<exists>e. Emit (Error e) \<in> set [Emit (Data [0]), Emit End]))"
    by simp
  have a: "Emit Drain \<in> set [Emit Close, Emit Drain]"
    by (rule backpressure_honoured [THEN conjunct1, THEN mp, OF 1])
  have b: "\<exists>err. Failed ''Stream ended'' = Failed err \<and>
          Destroy err \<in> set [Write [1], Destroy ''Stream ended'']"
    by (rule backpressure_honoured [THEN conjunct2, THEN mp, OF 2])
  from a b show ?thesis ..
qed

text \<open>
  The claim as stated, with a \<open>close\<close> event rejecting the wait, fails: the promise has
  no listener for \<open>close\<close>, so after it the sink still waits, and goes on writing once a
  \<open>drain\<close> event comes.
\<close>

theorem close_counterexample:
  "sink_run Pulling [Next [1] False, Emit Close] = Some (Waiting, [Write [1]]) \<and>
   sink_run Pulling [Next [1] False, Emit Close, Emit Drain, Next [2] True, Done]
     = Some (Returned, [Write [1], Write [2], EndStream])"
  by simp

section \<open>From generateCertificate to verifyPeerCertificate\<close>











end
